theory Spec2Isabelle
  imports Complex_Main "HOL-Library.Word" "HOL-Library.Code_Target_Numeral"
begin

section \<open>JavaScript strings\<close>

text \<open>
  A JavaScript string is a sequence of 16-bit code units. Source literals are written
  with \<open>js\<close>; every literal in the handlers is ASCII apart from the pictographs of the log
  messages, which are given by their code units.
\<close>

type_synonym jsstring = "16 word list"

definition js :: "string \<Rightarrow> jsstring" where
  "js s = map (\<lambda>c. of_nat (of_char c)) s"

section \<open>JSON values, \<open>JSON.parse\<close> and \<open>JSON.stringify\<close>\<close>

text \<open>
  The handlers call the runtime's \<open>JSON.parse\<close> and \<open>JSON.stringify\<close>. Both are modelled
  after ECMA-262 (sections 25.5.1 and 25.5.2) on the values a parse can produce.

  A number is kept as the exact decimal its token denotes, \<open>(-1)^negative * mantissa *
  10^exponent10\<close>. Of the rounding to binary64 the model keeps what changes the kind of a
  result: a magnitude of at most \<open>2^-1075\<close> is zero and a magnitude of at least
  \<open>2^1024 - 2^970\<close> is infinite. Between the two the digits printed are those of the
  decimal itself, which are the digits of the binary64 value for tokens of up to 15
  significant digits. Limits of memory and of nesting depth are not modelled.
\<close>

datatype number = Number (negative: bool) (mantissa: nat) (exponent10: int)

datatype json =
    JNull
  | JBool bool
  | JNumber number
  | JString jsstring
  | JArray "json list"
  | JObject "(jsstring \<times> json) list"

subsection \<open>Tokens\<close>

definition is_ws :: "16 word \<Rightarrow> bool" where
  "is_ws c = (c = 0x20 \<or> c = 0x09 \<or> c = 0x0A \<or> c = 0x0D)"

definition skip_ws :: "jsstring \<Rightarrow> jsstring" where
  "skip_ws = dropWhile is_ws"

definition is_digit :: "16 word \<Rightarrow> bool" where
  "is_digit c = (0x30 \<le> c \<and> c \<le> 0x39)"

definition hex_value :: "16 word \<Rightarrow> 16 word option" where
  "hex_value c =
     (if 0x30 \<le> c \<and> c \<le> 0x39 then Some (c - 0x30)
      else if 0x61 \<le> c \<and> c \<le> 0x66 then Some (c - 0x61 + 10)
      else if 0x41 \<le> c \<and> c \<le> 0x46 then Some (c - 0x41 + 10)
      else None)"

definition hex4 :: "16 word \<Rightarrow> 16 word \<Rightarrow> 16 word \<Rightarrow> 16 word \<Rightarrow> 16 word option" where
  "hex4 a b c d =
     (case (hex_value a, hex_value b, hex_value c, hex_value d) of
        (Some h3, Some h2, Some h1, Some h0) \<Rightarrow> Some (((h3 * 16 + h2) * 16 + h1) * 16 + h0)
      | _ \<Rightarrow> None)"

text \<open>The single-character escapes: a backslash followed by one of
  \<open>" / b f n r t\<close> or by another backslash.\<close>

definition unescape :: "16 word \<Rightarrow> 16 word option" where
  "unescape e =
     (if e = 0x22 then Some 0x22
      else if e = 0x5C then Some 0x5C
      else if e = 0x2F then Some 0x2F
      else if e = 0x62 then Some 0x08
      else if e = 0x66 then Some 0x0C
      else if e = 0x6E then Some 0x0A
      else if e = 0x72 then Some 0x0D
      else if e = 0x74 then Some 0x09
      else None)"

text \<open>The characters of a string token after its opening quote, up to and including the
  closing quote: the decoded string and the rest of the input.\<close>

fun parse_string_chars :: "jsstring \<Rightarrow> (jsstring \<times> jsstring) option" where
  "parse_string_chars [] = None"
| "parse_string_chars (c # s) =
     (if c = 0x22 then Some ([], s)
      else if c = 0x5C then
        (case s of
           [] \<Rightarrow> None
         | e # t \<Rightarrow>
             if e = 0x75 then
               (case t of
                  a # b # c # d # r \<Rightarrow>
                    (case hex4 a b c d of
                       None \<Rightarrow> None
                     | Some u \<Rightarrow> map_option (\<lambda>(str, rest). (u # str, rest)) (parse_string_chars r))
                | _ \<Rightarrow> None)
             else
               (case unescape e of
                  None \<Rightarrow> None
                | Some u \<Rightarrow> map_option (\<lambda>(str, rest). (u # str, rest)) (parse_string_chars t)))
      else if c < 0x20 then None
      else map_option (\<lambda>(str, rest). (c # str, rest)) (parse_string_chars s))"

definition parse_string :: "jsstring \<Rightarrow> (jsstring \<times> jsstring) option" where
  "parse_string s =
     (case s of [] \<Rightarrow> None | c # t \<Rightarrow> if c = 0x22 then parse_string_chars t else None)"

definition digits_value :: "jsstring \<Rightarrow> nat" where
  "digits_value ds = foldl (\<lambda>n c. 10 * n + unat (c - 0x30)) 0 ds"

text \<open>
  A number token: an optional \<open>-\<close>, an integer part (\<open>0\<close>, or digits not starting with
  \<open>0\<close>), an optional fraction (\<open>.\<close> and at least one digit), an optional exponent
  (\<open>e\<close> or \<open>E\<close>, an optional sign, at least one digit).
\<close>

definition scan_sign :: "jsstring \<Rightarrow> bool \<times> jsstring" where
  "scan_sign s =
     (case s of [] \<Rightarrow> (False, s) | c # t \<Rightarrow> if c = 0x2D then (True, t) else (False, s))"

text \<open>The fraction, if the input is at a point: its digits and the rest; \<open>None\<close> when no
  digit follows the point.\<close>

definition scan_fraction :: "jsstring \<Rightarrow> (jsstring \<times> jsstring) option" where
  "scan_fraction s =
     (case s of
        [] \<Rightarrow> Some ([], s)
      | c # t \<Rightarrow>
          if c = 0x2E then
            (case takeWhile is_digit t of
               [] \<Rightarrow> None
             | f # fs \<Rightarrow> Some (f # fs, dropWhile is_digit t))
          else Some ([], s))"

text \<open>The exponent, if the input is at \<open>e\<close> or \<open>E\<close>: its value and the rest; \<open>None\<close> when
  no digit follows.\<close>

definition scan_exponent :: "jsstring \<Rightarrow> (int \<times> jsstring) option" where
  "scan_exponent s =
     (case s of
        [] \<Rightarrow> Some (0, s)
      | c # t \<Rightarrow>
          if c = 0x65 \<or> c = 0x45 then
            (let (eneg, t') = (case t of [] \<Rightarrow> (False, t)
                               | g # u \<Rightarrow> if g = 0x2D then (True, u)
                                          else if g = 0x2B then (False, u) else (False, t))
             in case takeWhile is_digit t' of
                  [] \<Rightarrow> None
                | d # ds \<Rightarrow>
                    Some (if eneg then - int (digits_value (d # ds)) else int (digits_value (d # ds)),
                          dropWhile is_digit t'))
          else Some (0, s))"

definition parse_number :: "jsstring \<Rightarrow> (number \<times> jsstring) option" where
  "parse_number s =
     (let (neg, s1) = scan_sign s
      in case takeWhile is_digit s1 of
           [] \<Rightarrow> None
         | d # ds \<Rightarrow>
             if d = 0x30 \<and> ds \<noteq> [] then None
             else
               (case scan_fraction (dropWhile is_digit s1) of
                  None \<Rightarrow> None
                | Some (fs, s3) \<Rightarrow>
                    (case scan_exponent s3 of
                       None \<Rightarrow> None
                     | Some (e, s4) \<Rightarrow>
                         Some (Number neg (digits_value (d # ds @ fs)) (e - int (length fs)), s4))))"

subsection \<open>Objects\<close>

text \<open>
  An object is the list of its own properties in the order in which the runtime
  enumerates them: the keys that are array indices (canonical decimal numerals below
  \<open>2^32 - 1\<close>) in ascending numeric order, then the other keys in the order of their
  creation. Writing an existing key replaces its value in place.
\<close>

definition is_array_index :: "jsstring \<Rightarrow> bool" where
  "is_array_index k =
     (case k of
        [] \<Rightarrow> False
      | d # ds \<Rightarrow> list_all is_digit (d # ds) \<and> (if d = 0x30 then ds = [] else True)
                 \<and> digits_value (d # ds) < 4294967295)"

fun obj_insert_index ::
  "jsstring \<Rightarrow> json \<Rightarrow> (jsstring \<times> json) list \<Rightarrow> (jsstring \<times> json) list" where
  "obj_insert_index k v [] = [(k, v)]"
| "obj_insert_index k v ((k', v') # kvs) =
     (if is_array_index k' \<and> digits_value k' < digits_value k
      then (k', v') # obj_insert_index k v kvs
      else (k, v) # (k', v') # kvs)"

definition obj_set ::
  "jsstring \<Rightarrow> json \<Rightarrow> (jsstring \<times> json) list \<Rightarrow> (jsstring \<times> json) list" where
  "obj_set k v kvs =
     (if k \<in> set (map fst kvs)
      then map (\<lambda>(k', v'). if k' = k then (k', v) else (k', v')) kvs
      else if is_array_index k then obj_insert_index k v kvs
      else kvs @ [(k, v)])"

text \<open>The object of a parsed member list: each member is written in turn, so a repeated
  key keeps its first position and its last value.\<close>

definition mk_object :: "(jsstring \<times> json) list \<Rightarrow> json" where
  "mk_object ms = JObject (foldl (\<lambda>kvs (k, v). obj_set k v kvs) [] ms)"

subsection \<open>\<open>JSON.parse\<close>\<close>

definition parse_literal :: "jsstring \<Rightarrow> json \<Rightarrow> jsstring \<Rightarrow> (json \<times> jsstring) option" where
  "parse_literal lit v s =
     (if take (length lit) s = lit then Some (v, drop (length lit) s) else None)"

text \<open>
  \<open>parse_value\<close> reads one value at the head of its input (no leading white space),
  \<open>parse_elements\<close> the elements of a non-empty array up to and including \<open>]\<close>,
  \<open>parse_members\<close> the members of a non-empty object up to and including \<open>}\<close>. Each
  returns what it read and the rest of the input. The tests \<open>length \<dots> < length s\<close> before
  a further element or member make the recursion well-founded; they always hold, since
  the rest of an input is shorter than the input (\<open>parse_elements_unguarded\<close> and
  \<open>parse_members_unguarded\<close> below).
\<close>

lemma length_skip_ws: "length (skip_ws s) \<le> length s"
  by (simp add: skip_ws_def length_dropWhile_le)

lemma skip_ws_Cons_length: "skip_ws t = d # u \<Longrightarrow> length u < length t"
  using length_skip_ws [of t] by simp

function parse_value :: "jsstring \<Rightarrow> (json \<times> jsstring) option"
  and parse_elements :: "jsstring \<Rightarrow> (json list \<times> jsstring) option"
  and parse_members :: "jsstring \<Rightarrow> ((jsstring \<times> json) list \<times> jsstring) option"
where
  "parse_value s =
     (case s of
        [] \<Rightarrow> None
      | c # t \<Rightarrow>
          if c = 0x7B then
            (case skip_ws t of
               [] \<Rightarrow> None
             | d # u \<Rightarrow>
                 if d = 0x7D then Some (JObject [], u)
                 else map_option (\<lambda>(ms, r). (mk_object ms, r)) (parse_members (d # u)))
          else if c = 0x5B then
            (case skip_ws t of
               [] \<Rightarrow> None
             | d # u \<Rightarrow>
                 if d = 0x5D then Some (JArray [], u)
                 else map_option (\<lambda>(vs, r). (JArray vs, r)) (parse_elements (d # u)))
          else if c = 0x22 then map_option (\<lambda>(str, r). (JString str, r)) (parse_string_chars t)
          else if c = 0x74 then parse_literal (js ''true'') (JBool True) s
          else if c = 0x66 then parse_literal (js ''false'') (JBool False) s
          else if c = 0x6E then parse_literal (js ''null'') JNull s
          else map_option (\<lambda>(n, r). (JNumber n, r)) (parse_number s))"
| "parse_elements s =
     (case parse_value s of
        None \<Rightarrow> None
      | Some (v, r) \<Rightarrow>
          (case skip_ws r of
             [] \<Rightarrow> None
           | c # t \<Rightarrow>
               if c = 0x5D then Some ([v], t)
               else if c = 0x2C \<and> length (skip_ws t) < length s
               then map_option (\<lambda>(vs, r'). (v # vs, r')) (parse_elements (skip_ws t))
               else None))"
| "parse_members s =
     (case parse_string s of
        None \<Rightarrow> None
      | Some (k, r) \<Rightarrow>
          (case skip_ws r of
             [] \<Rightarrow> None
           | c # t \<Rightarrow>
               if c = 0x3A \<and> length (skip_ws t) < length s then
                 (case parse_value (skip_ws t) of
                    None \<Rightarrow> None
                  | Some (v, r2) \<Rightarrow>
                      (case skip_ws r2 of
                         [] \<Rightarrow> None
                       | c2 # t2 \<Rightarrow>
                           if c2 = 0x7D then Some ([(k, v)], t2)
                           else if c2 = 0x2C \<and> length (skip_ws t2) < length s
                           then map_option (\<lambda>(ms, r'). ((k, v) # ms, r'))
                                  (parse_members (skip_ws t2))
                           else None))
               else None))"
  by pat_completeness auto

termination
  by (relation "measure (\<lambda>x. case x of Inl s \<Rightarrow> 2 * length s
                               | Inr (Inl s) \<Rightarrow> 2 * length s + 1
                               | Inr (Inr s) \<Rightarrow> 2 * length s + 1)")
     (auto dest: skip_ws_Cons_length)

declare parse_value.simps [simp del]
declare parse_elements.simps [simp del]
declare parse_members.simps [simp del]

text \<open>\<open>JSON.parse(text)\<close>: one value between optional white space, and nothing else.
  \<open>None\<close> stands for the \<open>SyntaxError\<close> the runtime throws.\<close>

definition JSON_parse :: "jsstring \<Rightarrow> json option" where
  "JSON_parse s =
     (case parse_value (skip_ws s) of
        None \<Rightarrow> None
      | Some (v, r) \<Rightarrow> if skip_ws r = [] then Some v else None)"

text \<open>Where a value can end: at the end of the input, or before a comma, a closing
  bracket or a closing brace.\<close>

definition at_delimiter :: "jsstring \<Rightarrow> bool" where
  "at_delimiter s = (case s of [] \<Rightarrow> True | c # t \<Rightarrow> c = 0x2C \<or> c = 0x5D \<or> c = 0x7D)"

subsection \<open>\<open>JSON.stringify\<close>\<close>

definition hex_digit :: "16 word \<Rightarrow> 16 word" where
  "hex_digit n = js ''0123456789abcdef'' ! unat n"

text \<open>The escape \<open>\<^verbatim>\<open>\u\<close>\<close> followed by four lower-case hexadecimal digits.\<close>

definition unicode_escape :: "16 word \<Rightarrow> jsstring" where
  "unicode_escape u =
     [0x5C, 0x75, hex_digit (drop_bit 12 u), hex_digit (and (drop_bit 8 u) 0xF),
      hex_digit (and (drop_bit 4 u) 0xF), hex_digit (and u 0xF)]"

definition is_high_surrogate :: "16 word \<Rightarrow> bool" where
  "is_high_surrogate c = (0xD800 \<le> c \<and> c \<le> 0xDBFF)"

definition is_low_surrogate :: "16 word \<Rightarrow> bool" where
  "is_low_surrogate c = (0xDC00 \<le> c \<and> c \<le> 0xDFFF)"

text \<open>
  The characters between the quotes of a printed string (QuoteJSONString): backspace,
  tab, line feed, form feed, carriage return, the quote and the backslash have
  two-character escapes; the other control characters and the surrogates that are not
  part of a pair are printed as \<open>unicode_escape\<close>; everything else is printed as it is.
\<close>

fun quote_chars :: "jsstring \<Rightarrow> jsstring" where
  "quote_chars [] = []"
| "quote_chars (c # s) =
     (if c = 0x08 then 0x5C # 0x62 # quote_chars s
      else if c = 0x09 then 0x5C # 0x74 # quote_chars s
      else if c = 0x0A then 0x5C # 0x6E # quote_chars s
      else if c = 0x0C then 0x5C # 0x66 # quote_chars s
      else if c = 0x0D then 0x5C # 0x72 # quote_chars s
      else if c = 0x22 then 0x5C # 0x22 # quote_chars s
      else if c = 0x5C then 0x5C # 0x5C # quote_chars s
      else if c < 0x20 then unicode_escape c @ quote_chars s
      else if is_high_surrogate c then
        (case s of
           [] \<Rightarrow> unicode_escape c
         | d # r \<Rightarrow>
             if is_low_surrogate d then c # d # quote_chars r
             else unicode_escape c @ quote_chars s)
      else if is_low_surrogate c then unicode_escape c @ quote_chars s
      else c # quote_chars s)"

definition quote :: "jsstring \<Rightarrow> jsstring" where
  "quote s = 0x22 # quote_chars s @ [0x22]"

text \<open>The decimal digits of a natural number.\<close>

fun show_nat :: "nat \<Rightarrow> jsstring" where
  "show_nat n =
     (if n < 10 then [0x30 + of_nat n]
      else show_nat (n div 10) @ [0x30 + of_nat (n mod 10)])"

declare show_nat.simps [simp del]

text \<open>The two places where rounding to binary64 changes the kind of a parsed number:
  it is zero (positive or negative), or it is an infinity.\<close>

definition number_is_zero :: "number \<Rightarrow> bool" where
  "number_is_zero n =
     (mantissa n = 0
      \<or> (exponent10 n < 0 \<and> mantissa n * 2 ^ 1075 \<le> 10 ^ nat (- exponent10 n)))"

definition number_is_infinite :: "number \<Rightarrow> bool" where
  "number_is_infinite n =
     (if 0 \<le> exponent10 n
      then 2 ^ 1024 - 2 ^ 970 \<le> mantissa n * 10 ^ nat (exponent10 n)
      else (2 ^ 1024 - 2 ^ 970) * 10 ^ nat (- exponent10 n) \<le> mantissa n)"

text \<open>
  Number::toString for a finite number other than zero. With \<open>ds\<close> the \<open>k\<close> significant
  digits and \<open>n\<close> the decimal exponent (the value is \<open>0.ds * 10^n\<close>), the four layouts
  of ECMA-262 6.1.6.1.20: digits and zeros; digits, point, digits; \<open>0.\<close>, zeros, digits;
  and the exponential layout.
\<close>

definition Number_toString :: "number \<Rightarrow> jsstring" where
  "Number_toString x =
     (let ds0 = show_nat (mantissa x);
          ds = rev (dropWhile (\<lambda>c. c = 0x30) (rev ds0));
          k = int (length ds);
          n = int (length ds0) + exponent10 x
      in (if negative x then [0x2D] else [])
         @ (if k \<le> n \<and> n \<le> 21 then ds @ replicate (nat (n - k)) 0x30
            else if 0 < n \<and> n \<le> 21 then take (nat n) ds @ 0x2E # drop (nat n) ds
            else if - 6 < n \<and> n \<le> 0 then 0x30 # 0x2E # replicate (nat (- n)) 0x30 @ ds
            else take 1 ds @ (if k = 1 then [] else 0x2E # drop 1 ds)
                 @ 0x65 # (if n - 1 < 0 then 0x2D else 0x2B) # show_nat (nat \<bar>n - 1\<bar>)))"

text \<open>A number as \<open>JSON.stringify\<close> prints it: \<open>null\<close> when it is not finite, \<open>0\<close> for
  both zeros.\<close>

definition stringify_number :: "number \<Rightarrow> jsstring" where
  "stringify_number n =
     (if number_is_infinite n then js ''null''
      else if number_is_zero n then js ''0''
      else Number_toString n)"

fun stringify :: "json \<Rightarrow> jsstring"
  and stringify_elements :: "json list \<Rightarrow> jsstring"
  and stringify_members :: "(jsstring \<times> json) list \<Rightarrow> jsstring"
where
  "stringify JNull = js ''null''"
| "stringify (JBool b) = (if b then js ''true'' else js ''false'')"
| "stringify (JNumber n) = stringify_number n"
| "stringify (JString str) = quote str"
| "stringify (JArray vs) = 0x5B # stringify_elements vs @ [0x5D]"
| "stringify (JObject ms) = 0x7B # stringify_members ms @ [0x7D]"
| "stringify_elements [] = []"
| "stringify_elements [v] = stringify v"
| "stringify_elements (v # w # vs) = stringify v @ 0x2C # stringify_elements (w # vs)"
| "stringify_members [] = []"
| "stringify_members [(k, v)] = quote k @ 0x3A # stringify v"
| "stringify_members ((k, v) # m # ms) =
     quote k @ 0x3A # stringify v @ 0x2C # stringify_members (m # ms)"

text \<open>\<open>JSON.stringify(value)\<close> with no replacer and no indentation, for a value made of
  parsed JSON and object literals with string fields: it returns a string and does not
  throw.\<close>

definition JSON_stringify :: "json \<Rightarrow> jsstring" where
  "JSON_stringify v = stringify v"

section \<open>The runtime operations the handlers use\<close>

datatype js_error = SyntaxError | TypeError | Error jsstring

text \<open>ToBoolean on a parsed value.\<close>

definition ToBoolean :: "json \<Rightarrow> bool" where
  "ToBoolean v =
     (case v of
        JNull \<Rightarrow> False
      | JBool b \<Rightarrow> b
      | JNumber n \<Rightarrow> \<not> number_is_zero n
      | JString str \<Rightarrow> str \<noteq> []
      | JArray vs \<Rightarrow> True
      | JObject kvs \<Rightarrow> True)"

text \<open>\<open>a || b\<close> where \<open>a\<close> is the result of a property read (\<open>None\<close> is \<open>undefined\<close>).\<close>

definition logical_or :: "json option \<Rightarrow> json \<Rightarrow> json" where
  "logical_or a b = (case a of None \<Rightarrow> b | Some v \<Rightarrow> if ToBoolean v then v else b)"

text \<open>
  \<open>parsedMetadata.selectedPerson\<close>. Reading a property of \<open>null\<close> throws a TypeError. An
  object gives its own property or \<open>undefined\<close>; an array, a string, a number and a
  boolean have no property of this name, neither their own nor inherited.
\<close>

definition get_selectedPerson :: "json \<Rightarrow> js_error + json option" where
  "get_selectedPerson v =
     (case v of
        JNull \<Rightarrow> Inl TypeError
      | JObject kvs \<Rightarrow> Inr (map_of kvs (js ''selectedPerson''))
      | _ \<Rightarrow> Inr None)"

text \<open>
  \<open>parsedMetadata.botName = x\<close>. The route files are modules, and module code is strict
  mode code: assigning a property to a string, a number or a boolean throws a TypeError.
  On an array the assignment succeeds and creates a named property, which
  \<open>JSON.stringify\<close> does not print; the array is kept as it is.
\<close>

definition set_botName :: "json \<Rightarrow> json \<Rightarrow> js_error + json" where
  "set_botName v x =
     (case v of
        JObject kvs \<Rightarrow> Inr (JObject (obj_set (js ''botName'') x kvs))
      | JArray vs \<Rightarrow> Inr (JArray vs)
      | _ \<Rightarrow> Inl TypeError)"

text \<open>\<open>!x\<close> for a query parameter: absent (\<open>null\<close>) or the empty string.\<close>

definition falsy :: "jsstring option \<Rightarrow> bool" where
  "falsy x = (case x of None \<Rightarrow> True | Some str \<Rightarrow> str = [])"

text \<open>
  Modelled from the spec: \<open>randomString\<close> is imported from \<^verbatim>\<open>@/lib/client-utils\<close>,
  which is not among the source files. The spec describes the identity suffix as
  ``a 4-character random alphanumeric suffix'': \<open>randomString random n\<close> is \<open>n\<close>
  characters, the \<open>i\<close>-th chosen among the 62 letters and digits by the \<open>i\<close>-th draw of
  the random source.
\<close>

definition alphanumerics :: jsstring where
  "alphanumerics = js ''ABCDEFGHIJKLMNOPQRSTUVWXYZabcdefghijklmnopqrstuvwxyz0123456789''"

definition randomString :: "(nat \<Rightarrow> nat) \<Rightarrow> nat \<Rightarrow> jsstring" where
  "randomString random n = map (\<lambda>i. alphanumerics ! (random i mod 62)) [0..<n]"

definition is_alphanumeric :: "16 word \<Rightarrow> bool" where
  "is_alphanumeric c =
     ((0x41 \<le> c \<and> c \<le> 0x5A) \<or> (0x61 \<le> c \<and> c \<le> 0x7A) \<or> (0x30 \<le> c \<and> c \<le> 0x39))"

section \<open>The token endpoint\<close>

text \<open>
  \<^verbatim>\<open>frontend/app/api/connection-details/route.ts\<close> and \<^verbatim>\<open>unnamed/part_001\<close> each
  export a handler \<open>GET\<close>. A handler is modelled as a function from the world it runs in
  and the request to the response and the list of effects in the order in which they
  happen: what is written to the console and what is handed to the token library.
\<close>

record request =
  query_roomName :: "jsstring option"
  query_participantName :: "jsstring option"
  query_metadata :: "jsstring option"

text \<open>The argument of \<open>new AccessToken(key, secret, options)\<close> (fields \<open>identity\<close>,
  \<open>name\<close>, \<open>metadata\<close>) and of \<open>addGrant\<close>, with the fields the handlers set.\<close>

record AccessTokenOptions =
  opt_identity :: jsstring
  opt_name :: jsstring
  opt_metadata :: jsstring

record VideoGrant =
  room :: jsstring
  roomJoin :: bool
  canPublish :: bool
  canPublishData :: bool
  canSubscribe :: bool

text \<open>The token object of \<^verbatim>\<open>livekit-server-sdk\<close> as the handler configures it. \<open>ttl\<close>
  and \<open>video\<close> are \<open>None\<close> until the handler sets them.\<close>

record AccessToken =
  apiKey :: "jsstring option"
  apiSecret :: "jsstring option"
  options :: AccessTokenOptions
  ttl :: "jsstring option"
  video :: "VideoGrant option"

datatype console_arg = Str jsstring | Caught

datatype effect =
    Console_warn "console_arg list"
  | Console_log "console_arg list"
  | Console_error "console_arg list"
  | Token_toJwt AccessToken

text \<open>
  What the handlers take from their surroundings: the process environment, the source
  of random draws, \<open>String.prototype.toUpperCase\<close>, and the token library, whose
  \<open>toJwt\<close> returns the signed token or fails (\<open>None\<close>; a failure of the library's
  constructor is counted as a failure of \<open>toJwt\<close>).
\<close>

record world =
  process_env :: "jsstring \<rightharpoonup> jsstring"
  random :: "nat \<Rightarrow> nat"
  toUpperCase :: "jsstring \<Rightarrow> jsstring"
  toJwt :: "AccessToken \<Rightarrow> jsstring option"

record ConnectionDetails =
  details_serverUrl :: "jsstring option"
  details_roomName :: jsstring
  details_participantToken :: jsstring
  details_participantName :: jsstring

datatype body = Text jsstring | Json ConnectionDetails

record response =
  status :: nat
  body :: body

subsection \<open>frontend/app/api/connection-details/route.ts\<close>

definition API_KEY :: "world \<Rightarrow> jsstring option" where
  "API_KEY w = process_env w (js ''LIVEKIT_API_KEY'')"

definition API_SECRET :: "world \<Rightarrow> jsstring option" where
  "API_SECRET w = process_env w (js ''LIVEKIT_API_SECRET'')"

definition LIVEKIT_URL :: "world \<Rightarrow> jsstring option" where
  "LIVEKIT_URL w = process_env w (js ''LIVEKIT_URL'')"

text \<open>\<open>createParticipantToken(userInfo, roomName)\<close>: the result of \<open>at.toJwt()\<close> and the
  token object it was called on. \<open>at0\<close>, \<open>at1\<close> and \<open>at2\<close> are the object \<open>at\<close> as
  constructed, after the assignment to \<open>ttl\<close> and after \<open>addGrant\<close>.\<close>

definition createParticipantToken ::
  "world \<Rightarrow> AccessTokenOptions \<Rightarrow> jsstring \<Rightarrow> jsstring option \<times> effect list" where
  "createParticipantToken w userInfo roomName =
     (let at0 = \<lparr>apiKey = API_KEY w, apiSecret = API_SECRET w, options = userInfo,
                ttl = None, video = None\<rparr>;
          at1 = at0\<lparr>ttl := Some (js ''5m'')\<rparr>;
          at2 = at1\<lparr>video := Some \<lparr>room = roomName, roomJoin = True, canPublish = True,
                                  canPublishData = True, canSubscribe = True\<rparr>\<rparr>
      in (toJwt w at2, [Token_toJwt at2]))"

text \<open>The \<open>try { JSON.parse(metadata) } catch { \<dots> }\<close> of lines 30 to 35: the metadata to
  use and what was logged.\<close>

definition ensure_valid_metadata :: "jsstring \<Rightarrow> jsstring \<Rightarrow> jsstring \<times> effect list" where
  "ensure_valid_metadata participantName metadata =
     (case JSON_parse metadata of
        Some parsed \<Rightarrow> (metadata, [])
      | None \<Rightarrow>
          (JSON_stringify (JObject [(js ''selectedPerson'', JString participantName)]),
           [Console_error [Str (0x274C # js '' Invalid JSON metadata: '' @ metadata)]]))"

text \<open>The handler from line 22 on, once both required parameters are known to be
  non-empty strings.\<close>

definition issue :: "world \<Rightarrow> jsstring \<Rightarrow> jsstring \<Rightarrow> jsstring \<Rightarrow> response \<times> effect list" where
  "issue w roomName participantName metadata0 =
     (let received =
            (if metadata0 = []
             then [Console_warn [Str ([0x26A0, 0xFE0F]
                     @ js '' Warning: No metadata received for participant '' @ participantName)]]
             else [Console_log [Str (0x2705 # js '' Received metadata for '' @ participantName
                     @ js '': '' @ metadata0)]]);
          (metadata, repaired) = ensure_valid_metadata participantName metadata0;
          assigning = [Console_log [Str ([0xD83D, 0xDE80] @ js '' Assigning metadata to participant ''
                         @ participantName @ js '':''), Str metadata]];
          participantIdentity = participantName @ js ''__'' @ randomString (random w) 4;
          (participantToken, signing) =
            createParticipantToken w
              \<lparr>opt_identity = participantIdentity, opt_name = participantName,
                opt_metadata = metadata\<rparr>
              roomName
      in case participantToken of
           Some token \<Rightarrow>
             (\<lparr>status = 200,
               body = Json \<lparr>details_serverUrl = LIVEKIT_URL w, details_roomName = roomName,
                             details_participantToken = token,
                             details_participantName = participantName\<rparr>\<rparr>,
              received @ repaired @ assigning @ signing)
         | None \<Rightarrow>
             (\<lparr>status = 500, body = Text (js ''Internal Server Error'')\<rparr>,
              received @ repaired @ assigning @ signing
              @ [Console_error [Str (0x274C # js '' Error generating participant token:''), Caught]]))"

definition GET :: "world \<Rightarrow> request \<Rightarrow> response \<times> effect list" where
  "GET w request =
     (if falsy (query_roomName request) \<or> falsy (query_participantName request)
      then (\<lparr>status = 400, body = Text (js ''Missing required parameters'')\<rparr>, [])
      else
        (case (query_roomName request, query_participantName request) of
           (Some roomName, Some participantName) \<Rightarrow>
             issue w roomName participantName
               (case query_metadata request of None \<Rightarrow> [] | Some metadata \<Rightarrow> metadata)
         | _ \<Rightarrow> (\<lparr>status = 400, body = Text (js ''Missing required parameters'')\<rparr>, [])))"

text \<open>\<open>getLiveKitURL(region)\<close>: the address, or the Error it throws.\<close>

definition getLiveKitURL :: "world \<Rightarrow> jsstring option \<Rightarrow> js_error + jsstring" where
  "getLiveKitURL w region =
     (let targetKey =
            (if falsy region then js ''LIVEKIT_URL''
             else toUpperCase w (js ''LIVEKIT_URL_'' @ (case region of None \<Rightarrow> [] | Some r \<Rightarrow> r)))
      in case process_env w targetKey of
           None \<Rightarrow> Inl (Error (targetKey @ js '' is not defined''))
         | Some url \<Rightarrow>
             if url = [] then Inl (Error (targetKey @ js '' is not defined'')) else Inr url)"

subsection \<open>unnamed/part\_001\<close>

definition part_001_API_KEY :: "world \<Rightarrow> jsstring option" where
  "part_001_API_KEY w = process_env w (js ''LIVEKIT_API_KEY'')"

definition part_001_API_SECRET :: "world \<Rightarrow> jsstring option" where
  "part_001_API_SECRET w = process_env w (js ''LIVEKIT_API_SECRET'')"

definition part_001_LIVEKIT_URL :: "world \<Rightarrow> jsstring option" where
  "part_001_LIVEKIT_URL w = process_env w (js ''LIVEKIT_URL'')"

definition part_001_createParticipantToken ::
  "world \<Rightarrow> AccessTokenOptions \<Rightarrow> jsstring \<Rightarrow> jsstring option \<times> effect list" where
  "part_001_createParticipantToken w userInfo roomName =
     (let at0 = \<lparr>apiKey = part_001_API_KEY w, apiSecret = part_001_API_SECRET w,
                options = userInfo, ttl = None, video = None\<rparr>;
          at1 = at0\<lparr>ttl := Some (js ''5m'')\<rparr>;
          at2 = at1\<lparr>video := Some \<lparr>room = roomName, roomJoin = True, canPublish = True,
                                  canPublishData = True, canSubscribe = True\<rparr>\<rparr>
      in (toJwt w at2, [Token_toJwt at2]))"

text \<open>The body of the \<open>try\<close> of lines 22 to 25: the new metadata, or the error thrown.\<close>

definition derive_botName :: "jsstring \<Rightarrow> jsstring \<Rightarrow> js_error + jsstring" where
  "derive_botName participantName metadata =
     (case JSON_parse metadata of
        None \<Rightarrow> Inl SyntaxError
      | Some parsedMetadata \<Rightarrow>
          (case get_selectedPerson parsedMetadata of
             Inl e \<Rightarrow> Inl e
           | Inr selectedPerson \<Rightarrow>
               (case set_botName parsedMetadata
                       (logical_or selectedPerson (JString participantName)) of
                  Inl e \<Rightarrow> Inl e
                | Inr parsedMetadata' \<Rightarrow> Inr (JSON_stringify parsedMetadata'))))"

text \<open>The whole \<open>try \<dots> catch\<close> of lines 22 to 29.\<close>

definition part_001_ensure_valid_metadata ::
  "jsstring \<Rightarrow> jsstring \<Rightarrow> jsstring \<times> effect list" where
  "part_001_ensure_valid_metadata participantName metadata =
     (case derive_botName participantName metadata of
        Inr metadata' \<Rightarrow> (metadata', [])
      | Inl e \<Rightarrow>
          (JSON_stringify (JObject [(js ''selectedPerson'', JString participantName),
                                    (js ''botName'', JString participantName)]),
           [Console_error [Str (0x274C # js '' Invalid JSON metadata: '' @ metadata)]]))"

definition part_001_issue ::
  "world \<Rightarrow> jsstring \<Rightarrow> jsstring \<Rightarrow> jsstring \<Rightarrow> response \<times> effect list" where
  "part_001_issue w roomName participantName metadata0 =
     (let (metadata, repaired) = part_001_ensure_valid_metadata participantName metadata0;
          assigning = [Console_log [Str ([0xD83D, 0xDE80] @ js '' Assigning metadata to participant ''
                         @ participantName @ js '':''), Str metadata]];
          participantIdentity = participantName @ js ''__'' @ randomString (random w) 4;
          (participantToken, signing) =
            part_001_createParticipantToken w
              \<lparr>opt_identity = participantIdentity, opt_name = participantName,
                opt_metadata = metadata\<rparr>
              roomName
      in case participantToken of
           Some token \<Rightarrow>
             (\<lparr>status = 200,
               body = Json \<lparr>details_serverUrl = part_001_LIVEKIT_URL w, details_roomName = roomName,
                             details_participantToken = token,
                             details_participantName = participantName\<rparr>\<rparr>,
              repaired @ assigning @ signing)
         | None \<Rightarrow>
             (\<lparr>status = 500, body = Text (js ''Internal Server Error'')\<rparr>,
              repaired @ assigning @ signing
              @ [Console_error [Str (0x274C # js '' Error generating participant token:''), Caught]]))"

definition part_001_GET :: "world \<Rightarrow> request \<Rightarrow> response \<times> effect list" where
  "part_001_GET w request =
     (if falsy (query_roomName request) \<or> falsy (query_participantName request)
      then (\<lparr>status = 400, body = Text (js ''Missing required parameters'')\<rparr>, [])
      else
        (case (query_roomName request, query_participantName request) of
           (Some roomName, Some participantName) \<Rightarrow>
             part_001_issue w roomName participantName
               (case query_metadata request of None \<Rightarrow> [] | Some metadata \<Rightarrow> metadata)
         | _ \<Rightarrow> (\<lparr>status = 400, body = Text (js ''Missing required parameters'')\<rparr>, [])))"

text \<open>The token objects a run handed to the library, and their metadata.\<close>

definition signing_calls :: "effect list \<Rightarrow> AccessToken list" where
  "signing_calls effects = concat (map (\<lambda>e. case e of Token_toJwt tok \<Rightarrow> [tok] | _ \<Rightarrow> []) effects)"

subsection \<open>A sample world\<close>

text \<open>\<open>toUpperCase\<close> on strings of ASCII characters.\<close>

definition toUpperCase_ascii :: "jsstring \<Rightarrow> jsstring" where
  "toUpperCase_ascii = map (\<lambda>c. if 0x61 \<le> c \<and> c \<le> 0x7A then c - 0x20 else c)"

text \<open>The environment of \<^verbatim>\<open>docker-compose.yml\<close>, a fixed sequence of random draws, and a
  token library that signs every token it is given.\<close>

definition sample_world :: world where
  "sample_world =
     \<lparr>process_env = [js ''LIVEKIT_URL'' \<mapsto> js ''ws://livekit:7880'',
                     js ''LIVEKIT_API_KEY'' \<mapsto> js ''devkey'',
                     js ''LIVEKIT_API_SECRET'' \<mapsto> js ''secret''],
      random = (\<lambda>i. 7 * i + 3),
      toUpperCase = toUpperCase_ascii,
      toJwt = (\<lambda>tok. Some (js ''signed:'' @ opt_identity (options tok)))\<rparr>"

definition sample_request :: "jsstring option \<Rightarrow> request" where
  "sample_request m =
     \<lparr>query_roomName = Some (js ''lobby''), query_participantName = Some (js ''alice''),
      query_metadata = m\<rparr>"

section \<open>The selector component (Dropdown)\<close>

text \<open>
  Two source files define a React component \<open>Dropdown({ onSelect })\<close>:
  \<^verbatim>\<open>frontend/components/Dropdown.tsx\<close> and \<^verbatim>\<open>unnamed/part_000\<close>. Each holds two
  pieces of component state, \<open>isOpen\<close> (initially \<open>false\<close>) and \<open>selectedPerson\<close>
  (initially \<open>"Ram"\<close>), a constant list \<open>people\<close>, and two click handlers. A render is a
  pure function of the state; a handler returns the next state together with the list of
  \<open>onSelect\<close> calls it made.
\<close>

record selection_state =
  isOpen :: bool
  selectedPerson :: string

text \<open>What one render shows. The class names and the animation parameters are the
  presentation; the remaining fields are what the user can read and click.\<close>

record option_view =
  option_key :: nat
  option_person :: string
  option_className :: string
  option_whileHover_scale :: rat
  option_whileTap_scale :: rat

record list_view =
  list_className :: string
  list_initial_y :: int
  list_exit_y :: int
  list_options :: "option_view list"

record dropdown_view =
  root_className :: string
  button_className :: string
  selection_className :: string
  selection_text :: string
  chevron_rotate :: int
  chevron_className :: string
  option_list :: "list_view option"

datatype ui_event = ClickButton | ClickOption nat

subsection \<open>frontend/components/Dropdown.tsx\<close>

definition Dropdown_init :: selection_state where
  "Dropdown_init = \<lparr>isOpen = False, selectedPerson = ''Ram''\<rparr>"

definition Dropdown_people :: "string list" where
  "Dropdown_people = [''Ram'', ''Shyam'', ''Ketan'']"

definition Dropdown_option :: "nat \<Rightarrow> string \<Rightarrow> option_view" where
  "Dropdown_option index person =
     \<lparr>option_key = index, option_person = person,
      option_className = ''cursor-pointer select-none py-4 px-6 transition-all text-gray-700 hover:bg-purple-500 hover:text-white text-lg'',
      option_whileHover_scale = 105 / 100, option_whileTap_scale = 95 / 100\<rparr>"

definition Dropdown_render :: "selection_state \<Rightarrow> dropdown_view" where
  "Dropdown_render st =
     \<lparr>root_className = ''relative w-72 mx-auto mt-10'',
      button_className = ''w-full bg-gradient-to-r from-blue-500 to-purple-600 text-white py-4 px-6 rounded-2xl shadow-xl flex justify-between items-center border border-transparent hover:from-blue-600 hover:to-purple-700 focus:outline-none focus:ring-4 focus:ring-purple-300 transition-all'',
      selection_className = ''font-semibold text-lg'',
      selection_text = selectedPerson st,
      chevron_rotate = (if isOpen st then 180 else 0),
      chevron_className = ''h-6 w-6'',
      option_list =
        (if isOpen st then
           Some \<lparr>list_className = ''absolute mt-2 w-full bg-white/80 backdrop-blur-md shadow-2xl rounded-2xl overflow-hidden border border-gray-300 divide-y divide-gray-200'',
                 list_initial_y = - 10, list_exit_y = - 10,
                 list_options = map (\<lambda>(index, person). Dropdown_option index person)
                                  (enumerate 0 Dropdown_people)\<rparr>
         else None)\<rparr>"

text \<open>\<open>onClick={() => setIsOpen(!isOpen)}\<close>\<close>

definition Dropdown_button_onClick :: "selection_state \<Rightarrow> selection_state \<times> string list" where
  "Dropdown_button_onClick st = (st\<lparr>isOpen := \<not> isOpen st\<rparr>, [])"

text \<open>\<open>onClick={() => { setSelectedPerson(person); setIsOpen(false); onSelect(person); }}\<close>\<close>

definition Dropdown_option_onClick :: "string \<Rightarrow> selection_state \<Rightarrow> selection_state \<times> string list" where
  "Dropdown_option_onClick person st = (st\<lparr>selectedPerson := person, isOpen := False\<rparr>, [person])"

text \<open>A click reaches the handler of the element it hits. The option elements exist only
  in a render whose list is present; a click on an option that is not rendered hits
  nothing.\<close>

definition Dropdown_dispatch :: "selection_state \<Rightarrow> ui_event \<Rightarrow> selection_state \<times> string list" where
  "Dropdown_dispatch st ev =
     (case ev of
        ClickButton \<Rightarrow> Dropdown_button_onClick st
      | ClickOption i \<Rightarrow>
          (case option_list (Dropdown_render st) of
             None \<Rightarrow> (st, [])
           | Some l \<Rightarrow>
               if i < length (list_options l)
               then Dropdown_option_onClick (option_person (list_options l ! i)) st
               else (st, [])))"

subsection \<open>unnamed/part\_000\<close>

definition part_000_Dropdown_init :: selection_state where
  "part_000_Dropdown_init = \<lparr>isOpen = False, selectedPerson = ''Ram''\<rparr>"

definition part_000_Dropdown_people :: "string list" where
  "part_000_Dropdown_people = [''Ram'', ''Shyam'', ''Ketan'']"

definition part_000_Dropdown_option :: "nat \<Rightarrow> string \<Rightarrow> option_view" where
  "part_000_Dropdown_option index person =
     \<lparr>option_key = index, option_person = person,
      option_className = ''cursor-pointer select-none py-3 px-5 transition-all hover:bg-gray-700 text-lg'',
      option_whileHover_scale = 102 / 100, option_whileTap_scale = 98 / 100\<rparr>"

definition part_000_Dropdown_render :: "selection_state \<Rightarrow> dropdown_view" where
  "part_000_Dropdown_render st =
     \<lparr>root_className = ''relative w-64 mx-auto mt-6'',
      button_className = ''w-full bg-gradient-to-r from-gray-800 to-gray-900 text-white py-3 px-5 rounded-lg shadow-md flex justify-between items-center border border-gray-700 hover:bg-gray-700 transition-all'',
      selection_className = ''font-medium text-lg'',
      selection_text = selectedPerson st,
      chevron_rotate = (if isOpen st then 180 else 0),
      chevron_className = ''h-5 w-5'',
      option_list =
        (if isOpen st then
           Some \<lparr>list_className = ''absolute mt-2 w-full bg-gray-800 text-white shadow-lg rounded-lg border border-gray-700 overflow-hidden'',
                 list_initial_y = - 5, list_exit_y = - 5,
                 list_options = map (\<lambda>(index, person). part_000_Dropdown_option index person)
                                  (enumerate 0 part_000_Dropdown_people)\<rparr>
         else None)\<rparr>"

definition part_000_Dropdown_button_onClick :: "selection_state \<Rightarrow> selection_state \<times> string list" where
  "part_000_Dropdown_button_onClick st = (st\<lparr>isOpen := \<not> isOpen st\<rparr>, [])"

definition part_000_Dropdown_option_onClick ::
  "string \<Rightarrow> selection_state \<Rightarrow> selection_state \<times> string list" where
  "part_000_Dropdown_option_onClick person st =
     (st\<lparr>selectedPerson := person, isOpen := False\<rparr>, [person])"

definition part_000_Dropdown_dispatch ::
  "selection_state \<Rightarrow> ui_event \<Rightarrow> selection_state \<times> string list" where
  "part_000_Dropdown_dispatch st ev =
     (case ev of
        ClickButton \<Rightarrow> part_000_Dropdown_button_onClick st
      | ClickOption i \<Rightarrow>
          (case option_list (part_000_Dropdown_render st) of
             None \<Rightarrow> (st, [])
           | Some l \<Rightarrow>
               if i < length (list_options l)
               then part_000_Dropdown_option_onClick (option_person (list_options l ! i)) st
               else (st, [])))"

subsection \<open>Running a component on a sequence of clicks\<close>

text \<open>The state after the clicks, and every \<open>onSelect\<close> call made on the way, in order.\<close>

fun run_events ::
  "(selection_state \<Rightarrow> ui_event \<Rightarrow> selection_state \<times> string list) \<Rightarrow>
   selection_state \<Rightarrow> ui_event list \<Rightarrow> selection_state \<times> string list" where
  "run_events dispatch st [] = (st, [])"
| "run_events dispatch st (ev # evs) =
     (case dispatch st ev of (st', calls) \<Rightarrow>
        (case run_events dispatch st' evs of (st'', calls') \<Rightarrow> (st'', calls @ calls')))"

text \<open>A render with the presentation removed: class names emptied, animation
  parameters set to zero.\<close>

definition erase_option_style :: "option_view \<Rightarrow> option_view" where
  "erase_option_style v =
     v\<lparr>option_className := [], option_whileHover_scale := 0, option_whileTap_scale := 0\<rparr>"

definition erase_list_style :: "list_view \<Rightarrow> list_view" where
  "erase_list_style l =
     l\<lparr>list_className := [], list_initial_y := 0, list_exit_y := 0,
       list_options := map erase_option_style (list_options l)\<rparr>"

definition erase_style :: "dropdown_view \<Rightarrow> dropdown_view" where
  "erase_style v =
     v\<lparr>root_className := [], button_className := [], selection_className := [],
       chevron_className := [], option_list := map_option erase_list_style (option_list v)\<rparr>"

definition shown_options :: "dropdown_view \<Rightarrow> string list option" where
  "shown_options v = map_option (\<lambda>l. map option_person (list_options l)) (option_list v)"


section \<open>The parsers consume their input\<close>

lemma parse_string_chars_shorter:
  "parse_string_chars s = Some (str, r) \<Longrightarrow> length r < length s"
proof (induction "length s" arbitrary: s str r rule: less_induct)
  case less
  show ?case
  proof (cases s)
    case Nil
    with less.prems show ?thesis by simp
  next
    case (Cons c t)
    have ih: "length r' < length s'"
      if "length s' < length s" and "parse_string_chars s' = Some (str', r')" for s' str' r'
      using less.hyps [OF that] .
    from less.prems consider
        (close) "r = t"
      | (rec) s' str' where "parse_string_chars s' = Some (str', r)" "length s' < length s"
      unfolding Cons
      by (auto split: if_splits list.splits option.splits)
    then show ?thesis
    proof cases
      case close
      then show ?thesis by (simp add: Cons)
    next
      case rec
      from ih [OF rec(2,1)] rec(2) show ?thesis by simp
    qed
  qed
qed

lemma parse_string_shorter:
  "parse_string s = Some (str, r) \<Longrightarrow> length r < length s"
  by (auto simp: parse_string_def split: list.splits if_splits dest: parse_string_chars_shorter)

lemma parse_literal_shorter:
  assumes "parse_literal lit v s = Some (v', r)" and "lit \<noteq> []"
  shows "length r < length s"
proof -
  from assms(1) have "take (length lit) s = lit" and r: "r = drop (length lit) s"
    by (auto simp: parse_literal_def split: if_splits)
  then have "length lit \<le> length s"
    by (metis length_take min.cobounded1)
  with assms(2) r show ?thesis by (cases lit) auto
qed

lemma scan_sign_length: "scan_sign s = (neg, s1) \<Longrightarrow> length s1 \<le> length s"
  by (auto simp: scan_sign_def split: list.splits if_splits)

lemma scan_fraction_length: "scan_fraction s = Some (fs, r) \<Longrightarrow> length r \<le> length s"
  using length_dropWhile_le [of is_digit "tl s"]
  by (auto simp: scan_fraction_def split: list.splits if_splits)

lemma scan_exponent_length: "scan_exponent s = Some (e, r) \<Longrightarrow> length r \<le> length s"
proof -
  have le: "length (dropWhile is_digit t) \<le> length t" for t :: jsstring
    by (rule length_dropWhile_le)
  assume "scan_exponent s = Some (e, r)"
  then show ?thesis
    using le [of "tl s"] le [of "tl (tl s)"]
    by (auto simp: scan_exponent_def Let_def split: list.splits if_splits)
qed

lemma parse_number_shorter:
  assumes "parse_number s = Some (n, r)"
  shows "length r < length s"
proof -
  obtain neg s1 where sign: "scan_sign s = (neg, s1)" by (cases "scan_sign s")
  from assms sign obtain d ds fs s3 e where
    tw: "takeWhile is_digit s1 = d # ds"
    and fr: "scan_fraction (dropWhile is_digit s1) = Some (fs, s3)"
    and ex: "scan_exponent s3 = Some (e, r)"
    by (auto simp: parse_number_def split: list.splits if_splits option.splits)
  have "length (takeWhile is_digit s1) + length (dropWhile is_digit s1) = length s1"
    by (metis length_append takeWhile_dropWhile_id)
  then have "length (dropWhile is_digit s1) < length s1"
    using tw by simp
  with scan_sign_length [OF sign] scan_fraction_length [OF fr] scan_exponent_length [OF ex]
  show ?thesis by simp
qed


lemma js_literals_nonempty: "js ''true'' \<noteq> []" "js ''false'' \<noteq> []" "js ''null'' \<noteq> []"
  by (simp_all add: js_def)

text \<open>Every parser returns a rest that is shorter than its input.\<close>

lemma parse_shorter:
  "(\<forall>v r. parse_value s = Some (v, r) \<longrightarrow> length r < length s)
   \<and> (\<forall>vs r. parse_elements s = Some (vs, r) \<longrightarrow> length r < length s)
   \<and> (\<forall>ms r. parse_members s = Some (ms, r) \<longrightarrow> length r < length s)"
proof (induction "length s" arbitrary: s rule: less_induct)
  case less
  have ih_e: "length r < length s'"
    if "length s' < length s" and "parse_elements s' = Some (vs, r)" for s' vs r
    using less.hyps [OF that(1)] that(2) by blast
  have ih_m: "length r < length s'"
    if "length s' < length s" and "parse_members s' = Some (ms, r)" for s' ms r
    using less.hyps [OF that(1)] that(2) by blast
  have ih_v: "length r < length s'"
    if "length s' < length s" and "parse_value s' = Some (v, r)" for s' v r
    using less.hyps [OF that(1)] that(2) by blast
  have val: "length r < length s" if pv: "parse_value s = Some (v, r)" for v r
  proof (cases s)
    case Nil
    with pv show ?thesis by (simp add: parse_value.simps [of "[]"])
  next
    case (Cons c t)
    from pv consider
        (empty) u where "skip_ws t = 0x7D # u \<or> skip_ws t = 0x5D # u" "r = u"
      | (members) d u ms where "skip_ws t = d # u" "parse_members (d # u) = Some (ms, r)"
      | (elements) d u vs where "skip_ws t = d # u" "parse_elements (d # u) = Some (vs, r)"
      | (string) str where "parse_string_chars t = Some (str, r)"
      | (literal) lit v' where "parse_literal lit v' s = Some (v, r)" "lit \<noteq> []"
      | (number) n where "parse_number s = Some (n, r)"
      unfolding Cons parse_value.simps [of "c # t"]
      using js_literals_nonempty
      by (auto split: if_splits list.splits option.splits)
    then show ?thesis
    proof cases
      case empty
      then have "length r < length t"
        using skip_ws_Cons_length by blast
      then show ?thesis by (simp add: Cons)
    next
      case members
      have "length (d # u) < length s"
        using length_skip_ws [of t] members(1) by (simp add: Cons)
      from ih_m [OF this members(2)] this show ?thesis by simp
    next
      case elements
      have "length (d # u) < length s"
        using length_skip_ws [of t] elements(1) by (simp add: Cons)
      from ih_e [OF this elements(2)] this show ?thesis by simp
    next
      case string
      from parse_string_chars_shorter [OF this] show ?thesis by (simp add: Cons)
    next
      case literal
      then show ?thesis by (rule parse_literal_shorter)
    next
      case number
      then show ?thesis by (rule parse_number_shorter)
    qed
  qed
  have elems: "length r < length s" if pe: "parse_elements s = Some (vs, r)" for vs r
  proof -
    from pe obtain v r1 c t where pv: "parse_value s = Some (v, r1)" and sk: "skip_ws r1 = c # t"
      and "r = t \<or> (length (skip_ws t) < length s
                     \<and> (\<exists>vs'. parse_elements (skip_ws t) = Some (vs', r)))"
      unfolding parse_elements.simps [of s]
      by (auto split: option.splits list.splits if_splits)
    then consider (last) "r = t"
      | (more) vs' where "length (skip_ws t) < length s" "parse_elements (skip_ws t) = Some (vs', r)"
      by blast
    then show ?thesis
    proof cases
      case last
      with skip_ws_Cons_length [OF sk] val [OF pv] show ?thesis by simp
    next
      case more
      from ih_e [OF more] more(1) show ?thesis by simp
    qed
  qed
  have membs: "length r < length s" if pm: "parse_members s = Some (ms, r)" for ms r
  proof -
    from pm obtain t v r2 c2 t2 where l: "length (skip_ws t) < length s"
      and pv: "parse_value (skip_ws t) = Some (v, r2)" and sk: "skip_ws r2 = c2 # t2"
      and "r = t2 \<or> (length (skip_ws t2) < length s
                      \<and> (\<exists>ms'. parse_members (skip_ws t2) = Some (ms', r)))"
      unfolding parse_members.simps [of s]
      by (auto split: option.splits list.splits if_splits)
    then consider (last) "r = t2"
      | (more) ms' where "length (skip_ws t2) < length s" "parse_members (skip_ws t2) = Some (ms', r)"
      by blast
    then show ?thesis
    proof cases
      case last
      with skip_ws_Cons_length [OF sk] ih_v [OF l pv] l show ?thesis by simp
    next
      case more
      from ih_m [OF more] more(1) show ?thesis by simp
    qed
  qed
  from val elems membs show ?case by blast
qed

text \<open>So the length tests in \<open>parse_elements\<close> and \<open>parse_members\<close> never fail: both
  satisfy the equations without them.\<close>

lemma parse_elements_unguarded:
  "parse_elements s =
     (case parse_value s of
        None \<Rightarrow> None
      | Some (v, r) \<Rightarrow>
          (case skip_ws r of
             [] \<Rightarrow> None
           | c # t \<Rightarrow>
               if c = 0x5D then Some ([v], t)
               else if c = 0x2C
               then map_option (\<lambda>(vs, r'). (v # vs, r')) (parse_elements (skip_ws t))
               else None))"
proof -
  have "length (skip_ws t) < length s"
    if "parse_value s = Some (v, r)" and "skip_ws r = c # t" for v r c t
    using parse_shorter [of s] that(1) skip_ws_Cons_length [OF that(2)] length_skip_ws [of t]
    by fastforce
  then show ?thesis
    by (subst parse_elements.simps) (auto split: option.splits list.splits)
qed

lemma parse_members_unguarded:
  "parse_members s =
     (case parse_string s of
        None \<Rightarrow> None
      | Some (k, r) \<Rightarrow>
          (case skip_ws r of
             [] \<Rightarrow> None
           | c # t \<Rightarrow>
               if c = 0x3A then
                 (case parse_value (skip_ws t) of
                    None \<Rightarrow> None
                  | Some (v, r2) \<Rightarrow>
                      (case skip_ws r2 of
                         [] \<Rightarrow> None
                       | c2 # t2 \<Rightarrow>
                           if c2 = 0x7D then Some ([(k, v)], t2)
                           else if c2 = 0x2C
                           then map_option (\<lambda>(ms, r'). ((k, v) # ms, r'))
                                  (parse_members (skip_ws t2))
                           else None))
               else None))"
proof -
  have first: "length (skip_ws t) < length s"
    if "parse_string s = Some (k, r)" and "skip_ws r = c # t" for k r c t
    using parse_string_shorter [OF that(1)] skip_ws_Cons_length [OF that(2)] length_skip_ws [of t]
    by simp
  have second: "length (skip_ws t2) < length s"
    if "parse_string s = Some (k, r)" and "skip_ws r = c # t"
      and "parse_value (skip_ws t) = Some (v, r2)" and "skip_ws r2 = c2 # t2" for k r c t v r2 c2 t2
    using first [OF that(1,2)] parse_shorter [of "skip_ws t"] that(3)
      skip_ws_Cons_length [OF that(4)] length_skip_ws [of t2]
    by fastforce
  show ?thesis
    by (subst parse_members.simps) (auto split: option.splits list.splits simp: first second)
qed

section \<open>What \<open>JSON.stringify\<close> prints, \<open>JSON.parse\<close> accepts\<close>

subsection \<open>Printed strings are read back\<close>

lemma hex_value_hex_digit:
  assumes "unat n < 16"
  shows "hex_value (hex_digit n) = Some n"
proof -
  have all: "list_all (\<lambda>k. hex_value (js ''0123456789abcdef'' ! k) = Some (of_nat k))
          [0, 1, 2, 3, 4, 5, 6, 7, 8, 9, 10, 11, 12, 13, 14, 15 :: nat]"
    by (simp add: js_def hex_value_def)
  have "unat n \<in> set [0, 1, 2, 3, 4, 5, 6, 7, 8, 9, 10, 11, 12, 13, 14, 15 :: nat]"
    using assms by simp arith
  with all have "hex_value (js ''0123456789abcdef'' ! unat n) = Some (of_nat (unat n))"
    unfolding list_all_iff by blast
  then show ?thesis by (simp add: hex_digit_def)
qed

lemma nibble_bounds:
  fixes u :: "16 word"
  shows "unat (drop_bit 12 u) < 16" and "unat (and (drop_bit 8 u) 0xF) < 16"
    and "unat (and (drop_bit 4 u) 0xF) < 16" and "unat (and u 0xF) < 16"
proof -
  have "unat u < 2 ^ 16"
    using unsigned_less [of u, where ?'a = nat] by simp
  then have "unat u div 4096 < 16"
    by simp
  then show "unat (drop_bit 12 u) < 16"
    by (simp add: drop_bit_eq_div unat_div)
  have le: "and x 0xF \<le> (0xF :: 16 word)" for x
    by (rule word_and_le1)
  have "unat (and x 0xF) < 16" for x :: "16 word"
    using le [of x] by (simp add: word_le_nat_alt)
  then show "unat (and (drop_bit 8 u) 0xF) < 16" "unat (and (drop_bit 4 u) 0xF) < 16"
    "unat (and u 0xF) < 16"
    by blast+
qed

lemma nibble_unat:
  fixes x :: "16 word"
  shows "unat (and x 0xF) = unat x mod 16"
proof -
  have "(0xF :: 16 word) = mask 4" by (simp add: mask_eq_exp_minus_1)
  then have "and x 0xF = take_bit 4 x" by (simp add: take_bit_eq_mask)
  then show ?thesis by (simp add: take_bit_eq_mod unat_mod)
qed

lemma unat_drop_bit_16:
  fixes u :: "16 word"
  shows "unat (drop_bit n u) = unat u div 2 ^ n"
proof -
  have "unat (drop_bit n u) = drop_bit n (unat u)" by (rule unat_drop_bit_eq)
  also have "\<dots> = unat u div 2 ^ n" by (rule drop_bit_eq_div)
  finally show ?thesis .
qed

lemma unat_shift_add:
  fixes w d :: "16 word"
  assumes "unat w * 16 + unat d < 65536"
  shows "unat (w * 16 + d) = unat w * 16 + unat d"
  using assms by (simp add: unat_word_ariths)

lemma nibbles_recompose:
  fixes u :: "16 word"
  shows "((drop_bit 12 u * 16 + and (drop_bit 8 u) 0xF) * 16 + and (drop_bit 4 u) 0xF) * 16
              + and u 0xF = u"
proof -
  define a where "a = unat u"
  define b where "b = a div 16"
  define c where "c = b div 16"
  define d where "d = c div 16"
  define d3 d2 d1 d0 where "d3 = drop_bit 12 u" and "d2 = and (drop_bit 8 u) 0xF"
    and "d1 = and (drop_bit 4 u) 0xF" and "d0 = and u 0xF"
  have a: "a < 65536" using unsigned_less [of u, where ?'a = nat] by (simp add: a_def)
  have c_eq: "c = a div 256"
    unfolding c_def b_def by (simp add: div_mult2_eq [symmetric])
  have d_eq: "d = a div 4096"
    unfolding d_def c_eq by (simp add: div_mult2_eq [symmetric])
  have u3: "unat d3 = d"
    unfolding d3_def d_eq a_def unat_drop_bit_16 by simp
  have u2: "unat d2 = c mod 16"
    unfolding d2_def c_eq a_def nibble_unat unat_drop_bit_16 by simp
  have u1: "unat d1 = b mod 16"
    unfolding d1_def b_def a_def nibble_unat unat_drop_bit_16 by simp
  have u0: "unat d0 = a mod 16"
    unfolding d0_def a_def nibble_unat by simp
  have s1: "d * 16 + c mod 16 = c" unfolding d_def by simp
  have s2: "c * 16 + b mod 16 = b" unfolding c_def by simp
  have s3: "b * 16 + a mod 16 = a" unfolding b_def by simp
  have bounds: "c < 65536" "b < 65536"
    using a unfolding c_def b_def by simp_all
  define e1 where "e1 = d3 * 16 + d2"
  define e2 where "e2 = e1 * 16 + d1"
  define e3 where "e3 = e2 * 16 + d0"
  have w1: "unat e1 = c"
    unfolding e1_def using bounds unat_shift_add [of d3 d2] by (simp add: u3 u2 s1)
  have w2: "unat e2 = b"
    unfolding e2_def using bounds unat_shift_add [of e1 d1] by (simp add: w1 u1 s2)
  have w3: "unat e3 = a"
    unfolding e3_def using a unat_shift_add [of e2 d0] by (simp add: w2 u0 s3)
  then have "e3 = u"
    by (simp add: a_def word_unat_eq_iff)
  then show ?thesis
    unfolding e3_def e2_def e1_def d3_def d2_def d1_def d0_def .
qed

text \<open>The four hexadecimal digits of a code unit give the code unit back.\<close>

lemma hex4_unicode_escape:
  "hex4 (hex_digit (drop_bit 12 u)) (hex_digit (and (drop_bit 8 u) 0xF))
     (hex_digit (and (drop_bit 4 u) 0xF)) (hex_digit (and u 0xF)) = Some u"
  using nibble_bounds [of u] nibbles_recompose [of u]
  by (simp add: hex4_def hex_value_hex_digit del: drop_bit_eq_div)

lemma parse_escape:
  assumes "unescape e = Some x" and "e \<noteq> 0x75"
  shows "parse_string_chars (0x5C # e # s) =
           map_option (\<lambda>(str, rest). (x # str, rest)) (parse_string_chars s)"
  using assms by simp

lemma parse_literal_char:
  assumes "c \<noteq> 0x22" and "c \<noteq> 0x5C" and "\<not> c < 0x20"
  shows "parse_string_chars (c # s) =
           map_option (\<lambda>(str, rest). (c # str, rest)) (parse_string_chars s)"
  using assms by simp

lemma parse_unicode_escape:
  "parse_string_chars (unicode_escape u @ s) =
     map_option (\<lambda>(str, rest). (u # str, rest)) (parse_string_chars s)"
  using hex4_unicode_escape [of u] by (simp add: unicode_escape_def)

text \<open>A printed string is read back as the string it was printed from.\<close>

lemma parse_quote_chars:
  "parse_string_chars (quote_chars s @ 0x22 # rest) = Some (s, rest)"
proof (induction "length s" arbitrary: s rule: less_induct)
  case less
  show ?case
  proof (cases s)
    case Nil
    then show ?thesis by simp
  next
    case (Cons c t)
    from less [of t] Cons have
      t: "parse_string_chars (quote_chars t @ 0x22 # rest) = Some (t, rest)"
      by simp
    have esc: "parse_string_chars (0x5C # e # quote_chars t @ 0x22 # rest) = Some (x # t, rest)"
      if "unescape e = Some x" and "e \<noteq> 0x75" for e x
      using parse_escape [OF that] t by simp
    have uni: "parse_string_chars (unicode_escape c @ quote_chars t @ 0x22 # rest)
        = Some (c # t, rest)"
      using parse_unicode_escape [of c "quote_chars t @ 0x22 # rest"] t by simp
    consider (e08) "c = 0x08" | (e09) "c = 0x09" | (e0A) "c = 0x0A" | (e0C) "c = 0x0C"
      | (e0D) "c = 0x0D" | (e22) "c = 0x22" | (e5C) "c = 0x5C"
      | (ctl) "c \<notin> {0x08, 0x09, 0x0A, 0x0C, 0x0D, 0x22, 0x5C}" "c < 0x20"
      | (high) "c \<notin> {0x08, 0x09, 0x0A, 0x0C, 0x0D, 0x22, 0x5C}" "\<not> c < 0x20" "is_high_surrogate c"
      | (low) "c \<notin> {0x08, 0x09, 0x0A, 0x0C, 0x0D, 0x22, 0x5C}" "\<not> c < 0x20"
          "\<not> is_high_surrogate c" "is_low_surrogate c"
      | (plain) "c \<notin> {0x08, 0x09, 0x0A, 0x0C, 0x0D, 0x22, 0x5C}" "\<not> c < 0x20"
          "\<not> is_high_surrogate c" "\<not> is_low_surrogate c"
      by blast
    then show ?thesis
    proof cases
      case e08
      then show ?thesis
        using esc [of "0x62" "0x08"] Cons by (simp add: unescape_def del: parse_string_chars.simps)
    next
      case e09
      then show ?thesis
        using esc [of "0x74" "0x09"] Cons by (simp add: unescape_def del: parse_string_chars.simps)
    next
      case e0A
      then show ?thesis
        using esc [of "0x6E" "0x0A"] Cons by (simp add: unescape_def del: parse_string_chars.simps)
    next
      case e0C
      then show ?thesis
        using esc [of "0x66" "0x0C"] Cons by (simp add: unescape_def del: parse_string_chars.simps)
    next
      case e0D
      then show ?thesis
        using esc [of "0x72" "0x0D"] Cons by (simp add: unescape_def del: parse_string_chars.simps)
    next
      case e22
      then show ?thesis
        using esc [of "0x22" "0x22"] Cons by (simp add: unescape_def del: parse_string_chars.simps)
    next
      case e5C
      then show ?thesis
        using esc [of "0x5C" "0x5C"] Cons by (simp add: unescape_def del: parse_string_chars.simps)
    next
      case ctl
      then show ?thesis using uni Cons by (simp del: parse_string_chars.simps)
    next
      case low
      then show ?thesis using uni Cons by (simp del: parse_string_chars.simps)
    next
      case plain
      then show ?thesis
        using parse_literal_char [of c "quote_chars t @ 0x22 # rest"] t Cons
        by (simp del: parse_string_chars.simps)
    next
      case high
      show ?thesis
      proof (cases t)
        case Nil
        then show ?thesis
          using high uni Cons by (simp del: parse_string_chars.simps)
      next
        case (Cons d r)
        note t_def = Cons
        show ?thesis
        proof (cases "is_low_surrogate d")
          case False
          then show ?thesis
            using high uni t_def \<open>s = c # t\<close> by (simp del: parse_string_chars.simps)
        next
          case True
          from less [of r] t_def \<open>s = c # t\<close> have
            r: "parse_string_chars (quote_chars r @ 0x22 # rest) = Some (r, rest)"
            by simp
          have d: "d \<noteq> 0x22" "d \<noteq> 0x5C" "\<not> d < 0x20"
            using True by (auto simp: is_low_surrogate_def word_le_nat_alt word_less_nat_alt)
          have "parse_string_chars (c # d # quote_chars r @ 0x22 # rest) = Some (c # d # r, rest)"
            using high r parse_literal_char [of c] parse_literal_char [OF d]
            by (simp del: parse_string_chars.simps)
          then show ?thesis
            using high True t_def \<open>s = c # t\<close> by (simp del: parse_string_chars.simps)
        qed
      qed
    qed
  qed
qed

lemma parse_quote:
  "parse_string (quote str @ rest) = Some (str, rest)"
  using parse_quote_chars [of str rest] by (simp add: parse_string_def quote_def)

subsection \<open>Printed numbers are read back\<close>

lemma show_nat_digits: "list_all is_digit (show_nat n)"
proof (induction n rule: show_nat.induct)
  case (1 n)
  have d: "is_digit (0x30 + of_nat k)" if "k < 10" for k :: nat
  proof -
    have "k \<in> {0, 1, 2, 3, 4, 5, 6, 7, 8, 9}" using that by auto
    then show ?thesis by (auto simp: is_digit_def)
  qed
  show ?case
  proof (cases "n < 10")
    case True
    then show ?thesis using d [of n] by (simp add: show_nat.simps [of n])
  next
    case False
    then show ?thesis
      using 1 d [of "n mod 10"] by (simp add: show_nat.simps [of n])
  qed
qed

lemma show_nat_nonempty: "show_nat n \<noteq> []"
  by (simp add: show_nat.simps [of n])

lemma show_nat_hd: "0 < n \<Longrightarrow> hd (show_nat n) \<noteq> 0x30"
proof (induction n rule: show_nat.induct)
  case (1 n)
  show ?case
  proof (cases "n < 10")
    case True
    with 1(2) have "n \<in> {1, 2, 3, 4, 5, 6, 7, 8, 9}" by auto
    then show ?thesis by (auto simp: show_nat.simps [of n])
  next
    case False
    then have "0 < n div 10" by simp
    with 1(1) False have "hd (show_nat (n div 10)) \<noteq> 0x30" by simp
    then show ?thesis
      using False by (simp add: show_nat.simps [of n] show_nat_nonempty)
  qed
qed


lemma not_digit_simps [simp]:
  "\<not> is_digit 0x2E" "\<not> is_digit 0x65" "\<not> is_digit 0x2C" "\<not> is_digit 0x5D" "\<not> is_digit 0x7D"
  "\<not> is_digit 0x2D" "\<not> is_digit 0x2B" "is_digit 0x30"
  by (simp_all add: is_digit_def)

lemma span_digits:
  assumes "list_all is_digit ds" and "case xs of [] \<Rightarrow> True | c # t \<Rightarrow> \<not> is_digit c"
  shows "takeWhile is_digit (ds @ xs) = ds" and "dropWhile is_digit (ds @ xs) = xs"
proof -
  have xs: "takeWhile is_digit xs = []" "dropWhile is_digit xs = xs"
    using assms(2) by (cases xs; simp)+
  have ds: "\<forall>x\<in>set ds. is_digit x"
    using assms(1) by (simp add: list_all_iff)
  show "takeWhile is_digit (ds @ xs) = ds"
    using ds xs by (simp add: takeWhile_append2)
  show "dropWhile is_digit (ds @ xs) = xs"
    using ds xs by (simp add: dropWhile_append2)
qed

lemma at_delimiter_no_digit:
  "at_delimiter r \<Longrightarrow> (case r of [] \<Rightarrow> True | c # t \<Rightarrow> \<not> is_digit c)"
  by (auto simp: at_delimiter_def split: list.splits)

lemma scan_exponent_none:
  "at_delimiter r \<Longrightarrow> scan_exponent r = Some (0, r)"
  by (auto simp: at_delimiter_def scan_exponent_def split: list.splits)

lemma scan_exponent_signed:
  assumes "sg = 0x2D \<or> sg = 0x2B" and "list_all is_digit ds" and "ds \<noteq> []" and "at_delimiter r"
  shows "\<exists>e. scan_exponent (0x65 # sg # ds @ r) = Some (e, r)"
proof -
  note sp = span_digits [OF assms(2) at_delimiter_no_digit [OF assms(4)]]
  obtain d ds' where "ds = d # ds'" using assms(3) by (cases ds) auto
  then show ?thesis
    using assms(1) sp by (auto simp: scan_exponent_def)
qed

lemma scan_fraction_none:
  assumes "case r of [] \<Rightarrow> True | c # t \<Rightarrow> c \<noteq> 0x2E"
  shows "scan_fraction r = Some ([], r)"
  using assms by (auto simp: scan_fraction_def split: list.splits)

lemma scan_fraction_digits:
  assumes "list_all is_digit fs" and "fs \<noteq> []" and "case r of [] \<Rightarrow> True | c # t \<Rightarrow> \<not> is_digit c"
  shows "scan_fraction (0x2E # fs @ r) = Some (fs, r)"
proof -
  note sp = span_digits [OF assms(1,3)]
  obtain f fs' where "fs = f # fs'" using assms(2) by (cases fs) auto
  then show ?thesis
    using sp by (simp add: scan_fraction_def)
qed

text \<open>A number token followed by a delimiter is read as a number, up to the delimiter.\<close>

lemma parse_number_token:
  assumes ip: "list_all is_digit ip" "ip \<noteq> []" "hd ip = 0x30 \<Longrightarrow> tl ip = []"
    and fr: "fr = [] \<or> (\<exists>fs. fr = 0x2E # fs \<and> fs \<noteq> [] \<and> list_all is_digit fs)"
    and ex: "ex = [] \<or> (\<exists>sg ds. ex = 0x65 # sg # ds \<and> (sg = 0x2D \<or> sg = 0x2B) \<and> ds \<noteq> []
                          \<and> list_all is_digit ds)"
    and pre: "pre = [] \<or> pre = [0x2D]"
    and rest: "at_delimiter rest"
  shows "\<exists>n. parse_number (pre @ ip @ fr @ ex @ rest) = Some (n, rest)"
proof -
  obtain d ds where ip_eq: "ip = d # ds" using ip(2) by (cases ip) auto
  have d: "is_digit d" using ip(1) ip_eq by simp
  then have dm: "d \<noteq> 0x2D" by auto
  have lead: "\<not> (d = 0x30 \<and> ds \<noteq> [])" using ip(3) ip_eq by auto
  have sign: "\<exists>neg. scan_sign (pre @ ip @ fr @ ex @ rest) = (neg, ip @ fr @ ex @ rest)"
    using pre dm by (auto simp: scan_sign_def ip_eq)
  have exr: "\<exists>e. scan_exponent (ex @ rest) = Some (e, rest)"
    using ex scan_exponent_none [OF rest] scan_exponent_signed [OF _ _ _ rest] by auto
  have ex0: "case ex @ rest of [] \<Rightarrow> True | c # t \<Rightarrow> \<not> is_digit c \<and> c \<noteq> 0x2E"
    using ex rest by (auto simp: at_delimiter_def split: list.splits)
  then have ex_nd: "case ex @ rest of [] \<Rightarrow> True | c # t \<Rightarrow> \<not> is_digit c"
    and ex_np: "case ex @ rest of [] \<Rightarrow> True | c # t \<Rightarrow> c \<noteq> 0x2E"
    by (auto split: list.splits)
  have frr: "\<exists>fs. scan_fraction (fr @ ex @ rest) = Some (fs, ex @ rest)"
    using fr scan_fraction_none [OF ex_np] scan_fraction_digits [OF _ _ ex_nd] by auto
  have fr_nd: "case fr @ ex @ rest of [] \<Rightarrow> True | c # t \<Rightarrow> \<not> is_digit c"
    using fr ex_nd by (auto split: list.splits)
  note sp = span_digits [OF ip(1) fr_nd]
  from sign obtain neg where "scan_sign (pre @ ip @ fr @ ex @ rest) = (neg, ip @ fr @ ex @ rest)" ..
  moreover from frr obtain fs where "scan_fraction (fr @ ex @ rest) = Some (fs, ex @ rest)" ..
  moreover from exr obtain e where "scan_exponent (ex @ rest) = Some (e, rest)" ..
  ultimately show ?thesis
    using sp lead by (simp add: parse_number_def ip_eq)
qed


lemma strip_trailing_zeros:
  assumes "list_all is_digit ds0" and "ds0 \<noteq> []" and "hd ds0 \<noteq> 0x30"
  defines "ds \<equiv> rev (dropWhile (\<lambda>c. c = 0x30) (rev ds0))"
  shows "list_all is_digit ds" and "ds \<noteq> []" and "hd ds \<noteq> 0x30"
proof -
  obtain d t where ds0: "ds0 = d # t" using assms(2) by (cases ds0) auto
  have d: "d \<noteq> 0x30" using assms(3) ds0 by simp
  have sub: "set ds \<subseteq> set ds0"
    using set_dropWhileD [of _ "\<lambda>c. c = 0x30" "rev ds0"] by (auto simp: ds_def)
  have "dropWhile (\<lambda>c. c = 0x30) (rev t @ [d]) \<noteq> []"
    using d by (simp add: dropWhile_append)
  then have ne: "ds \<noteq> []"
    by (simp add: ds_def ds0)
  have "last (dropWhile (\<lambda>c. c = 0x30) (rev t @ [d])) = d"
    using d by (simp add: dropWhile_append)
  then have "hd ds = d"
    using ne by (simp add: ds_def ds0 hd_rev)
  then show "hd ds \<noteq> 0x30" using d by simp
  show "ds \<noteq> []" by (rule ne)
  show "list_all is_digit ds"
    using assms(1) sub by (auto simp: list_all_iff)
qed

lemma Number_toString_parses:
  assumes "mantissa x \<noteq> 0" and "at_delimiter rest"
  shows "\<exists>n. parse_number (Number_toString x @ rest) = Some (n, rest)"
proof -
  define ds0 where "ds0 = show_nat (mantissa x)"
  define ds where "ds = rev (dropWhile (\<lambda>c. c = 0x30) (rev ds0))"
  define k where "k = int (length ds)"
  define n where "n = int (length ds0) + exponent10 x"
  define pre :: jsstring where "pre = (if negative x then [0x2D] else [])"
  have ds0: "list_all is_digit ds0" "ds0 \<noteq> []" "hd ds0 \<noteq> 0x30"
    using assms(1) by (simp_all add: ds0_def show_nat_digits show_nat_nonempty show_nat_hd)
  have ds: "list_all is_digit ds" "ds \<noteq> []" "hd ds \<noteq> 0x30"
    unfolding ds_def by (rule strip_trailing_zeros [OF ds0])+
  have pre: "pre = [] \<or> pre = [0x2D]" by (simp add: pre_def)
  have shape: "Number_toString x =
      pre @ (if k \<le> n \<and> n \<le> 21 then ds @ replicate (nat (n - k)) 0x30
             else if 0 < n \<and> n \<le> 21 then take (nat n) ds @ 0x2E # drop (nat n) ds
             else if - 6 < n \<and> n \<le> 0 then 0x30 # 0x2E # replicate (nat (- n)) 0x30 @ ds
             else take 1 ds @ (if k = 1 then [] else 0x2E # drop 1 ds)
                  @ 0x65 # (if n - 1 < 0 then 0x2D else 0x2B) # show_nat (nat \<bar>n - 1\<bar>))"
    unfolding Number_toString_def Let_def ds0_def ds_def k_def n_def pre_def by (rule refl)
  show ?thesis
  proof (cases "k \<le> n \<and> n \<le> 21")
    case True
    then have c1: "(k \<le> n \<and> n \<le> 21) = True" by simp
    have eq: "Number_toString x @ rest
        = pre @ (ds @ replicate (nat (n - k)) 0x30) @ [] @ [] @ rest"
      by (simp only: shape c1 if_True append_assoc append_Nil)
    have "\<exists>m. parse_number (pre @ (ds @ replicate (nat (n - k)) 0x30) @ [] @ [] @ rest) = Some (m, rest)"
    proof (rule parse_number_token [OF _ _ _ _ _ pre assms(2)])
      show "list_all is_digit (ds @ replicate (nat (n - k)) 0x30)"
        using ds(1) by (auto simp: list_all_iff)
      show "ds @ replicate (nat (n - k)) 0x30 \<noteq> []" using ds(2) by simp
      show "tl (ds @ replicate (nat (n - k)) 0x30) = []"
        if "hd (ds @ replicate (nat (n - k)) 0x30) = 0x30"
        using that ds(2,3) by simp
    qed simp_all
    then show ?thesis by (simp only: eq)
  next
    case False
    then have c1: "(k \<le> n \<and> n \<le> 21) = False" by simp
    show ?thesis
    proof (cases "0 < n \<and> n \<le> 21")
      case True
      then have c2: "(0 < n \<and> n \<le> 21) = True" by simp
      have eq: "Number_toString x @ rest
          = pre @ take (nat n) ds @ (0x2E # drop (nat n) ds) @ [] @ rest"
        by (simp only: shape c1 c2 if_True if_False append_assoc append_Nil append_Cons)
      from True c1 have nk: "nat n < length ds" "0 < nat n" by (auto simp: k_def)
      have "\<exists>m. parse_number (pre @ take (nat n) ds @ (0x2E # drop (nat n) ds) @ [] @ rest)
              = Some (m, rest)"
      proof (rule parse_number_token [OF _ _ _ _ _ pre assms(2)])
        show "list_all is_digit (take (nat n) ds)"
          using ds(1) by (auto simp: list_all_iff dest: in_set_takeD)
        show "take (nat n) ds \<noteq> []" using nk ds(2) by auto
        show "tl (take (nat n) ds) = []" if "hd (take (nat n) ds) = 0x30"
          using that nk ds(3) by (simp add: hd_take)
        show "0x2E # drop (nat n) ds = [] \<or>
              (\<exists>fs. 0x2E # drop (nat n) ds = 0x2E # fs \<and> fs \<noteq> [] \<and> list_all is_digit fs)"
          using nk ds(1) by (auto simp: list_all_iff dest: in_set_dropD)
      qed simp
      then show ?thesis by (simp only: eq)
    next
      case False
      then have c2: "(0 < n \<and> n \<le> 21) = False" by simp
      show ?thesis
      proof (cases "- 6 < n \<and> n \<le> 0")
        case True
        then have c3: "(- 6 < n \<and> n \<le> 0) = True" by simp
        have eq: "Number_toString x @ rest
            = pre @ [0x30] @ (0x2E # replicate (nat (- n)) 0x30 @ ds) @ [] @ rest"
          by (simp only: shape c1 c2 c3 if_True if_False append_assoc append_Nil append_Cons)
        have "\<exists>m. parse_number (pre @ [0x30] @ (0x2E # replicate (nat (- n)) 0x30 @ ds) @ [] @ rest)
                = Some (m, rest)"
        proof (rule parse_number_token [OF _ _ _ _ _ pre assms(2)])
          show "0x2E # replicate (nat (- n)) 0x30 @ ds = [] \<or>
              (\<exists>fs. 0x2E # replicate (nat (- n)) 0x30 @ ds = 0x2E # fs \<and> fs \<noteq> []
                    \<and> list_all is_digit fs)"
            using ds(1,2) by (auto simp: list_all_iff)
        qed simp_all
        then show ?thesis by (simp only: eq)
      next
        case False
        then have c3: "(- 6 < n \<and> n \<le> 0) = False" by simp
        obtain d t where ds_eq: "ds = d # t" using ds(2) by (cases ds) auto
        have t: "t \<noteq> []" if "k \<noteq> 1" using that by (auto simp: k_def ds_eq)
        have td: "take 1 ds = [d]" "drop 1 ds = t" by (simp_all add: ds_eq)
        have eq: "Number_toString x @ rest
            = pre @ [d] @ (if k = 1 then [] else 0x2E # t)
                @ (0x65 # (if n - 1 < 0 then 0x2D else 0x2B) # show_nat (nat \<bar>n - 1\<bar>)) @ rest"
          by (simp only: shape c1 c2 c3 td if_False append_assoc append_Nil append_Cons)
        have "\<exists>m. parse_number (pre @ [d] @ (if k = 1 then [] else 0x2E # t)
               @ (0x65 # (if n - 1 < 0 then 0x2D else 0x2B) # show_nat (nat \<bar>n - 1\<bar>)) @ rest)
              = Some (m, rest)"
        proof (rule parse_number_token [OF _ _ _ _ _ pre assms(2)])
          show "list_all is_digit [d]" using ds(1) ds_eq by simp
          show "(if k = 1 then [] else 0x2E # t) = [] \<or>
                (\<exists>fs. (if k = 1 then [] else 0x2E # t) = 0x2E # fs \<and> fs \<noteq> []
                      \<and> list_all is_digit fs)"
            using t ds(1) ds_eq by auto
          show "0x65 # (if n - 1 < 0 then 0x2D else 0x2B) # show_nat (nat \<bar>n - 1\<bar>) = [] \<or>
                (\<exists>sg es. 0x65 # (if n - 1 < 0 then 0x2D else 0x2B) # show_nat (nat \<bar>n - 1\<bar>)
                           = 0x65 # sg # es \<and> (sg = 0x2D \<or> sg = 0x2B) \<and> es \<noteq> []
                         \<and> list_all is_digit es)"
            by (simp add: show_nat_digits show_nat_nonempty)
        qed simp_all
        then show ?thesis by (simp only: eq)
      qed
    qed
  qed
qed


subsection \<open>Printed values are read back\<close>

lemma skip_ws_Cons: "\<not> is_ws c \<Longrightarrow> skip_ws (c # s) = c # s"
  by (simp add: skip_ws_def)

lemma not_ws_simps [simp]:
  "\<not> is_ws 0x22" "\<not> is_ws 0x2C" "\<not> is_ws 0x3A" "\<not> is_ws 0x5B" "\<not> is_ws 0x5D"
  "\<not> is_ws 0x7B" "\<not> is_ws 0x7D" "\<not> is_ws 0x2D" "\<not> is_ws 0x6E" "\<not> is_ws 0x74" "\<not> is_ws 0x66"
  by (simp_all add: is_ws_def)

lemma digit_not_ws: "is_digit c \<Longrightarrow> \<not> is_ws c"
  by (auto simp: is_digit_def is_ws_def)

text \<open>A printed number is \<open>null\<close>, or starts with \<open>-\<close> or a digit.\<close>

lemma Number_toString_head:
  assumes "mantissa x \<noteq> 0"
  shows "\<exists>c t. Number_toString x = c # t \<and> (c = 0x2D \<or> is_digit c)"
proof -
  define ds0 where "ds0 = show_nat (mantissa x)"
  define ds where "ds = rev (dropWhile (\<lambda>c. c = 0x30) (rev ds0))"
  have ds0: "list_all is_digit ds0" "ds0 \<noteq> []" "hd ds0 \<noteq> 0x30"
    using assms(1) by (simp_all add: ds0_def show_nat_digits show_nat_nonempty show_nat_hd)
  have ds: "list_all is_digit ds" "ds \<noteq> []" "hd ds \<noteq> 0x30"
    unfolding ds_def by (rule strip_trailing_zeros [OF ds0])+
  obtain d t where ds_eq: "ds = d # t" using ds(2) by (cases ds) auto
  have d: "is_digit d" using ds(1) ds_eq by simp
  show ?thesis
    unfolding Number_toString_def Let_def ds0_def [symmetric] ds_def [symmetric]
    using d by (cases "nat (int (length ds0) + exponent10 x)") (auto simp: ds_eq)
qed


lemma digit_not_special:
  assumes "is_digit c \<or> c = 0x2D"
  shows "c \<noteq> 0x7B" "c \<noteq> 0x5B" "c \<noteq> 0x22" "c \<noteq> 0x74" "c \<noteq> 0x66" "c \<noteq> 0x6E"
    "c \<noteq> 0x5D" "c \<noteq> 0x7D" "c \<noteq> 0x2C" "\<not> is_ws c"
  using assms by (auto simp: is_digit_def is_ws_def)

lemma parse_value_number_token:
  assumes "is_digit c \<or> c = 0x2D"
  shows "parse_value (c # t) = map_option (\<lambda>(n, r). (JNumber n, r)) (parse_number (c # t))"
  using digit_not_special [OF assms] by (simp add: parse_value.simps [of "c # t"])

lemma stringify_number_head:
  "\<exists>c t. stringify_number n = c # t \<and> (c = 0x6E \<or> c = 0x2D \<or> is_digit c)"
proof -
  have "mantissa n \<noteq> 0" if "\<not> number_is_zero n"
    using that by (auto simp: number_is_zero_def)
  then show ?thesis
    using Number_toString_head [of n]
    by (auto simp: stringify_number_def js_def)
qed

lemma parse_stringify_number:
  assumes "at_delimiter rest"
  shows "\<exists>v. parse_value (stringify_number n @ rest) = Some (v, rest)"
proof (cases "number_is_infinite n")
  case True
  then show ?thesis
    by (simp add: stringify_number_def js_def parse_value.simps [of "_ # _"] parse_literal_def)
next
  case finite: False
  show ?thesis
  proof (cases "number_is_zero n")
    case True
    have "\<exists>m. parse_number ([] @ [0x30] @ [] @ [] @ rest) = Some (m, rest)"
      by (rule parse_number_token [OF _ _ _ _ _ _ assms]) simp_all
    then show ?thesis
      using finite True
      by (auto simp: stringify_number_def js_def parse_value_number_token)
  next
    case False
    then have m: "mantissa n \<noteq> 0" by (auto simp: number_is_zero_def)
    from Number_toString_head [OF m] obtain c t where
      ct: "Number_toString n = c # t" "c = 0x2D \<or> is_digit c" by blast
    from Number_toString_parses [OF m assms] obtain k where
      "parse_number (Number_toString n @ rest) = Some (k, rest)" ..
    then show ?thesis
      using finite False ct parse_value_number_token [of c "t @ rest"]
      by (auto simp: stringify_number_def)
  qed
qed

text \<open>What a printed value starts with: never white space, a comma or a closing bracket
  or brace.\<close>

lemma quote_head: "\<exists>t. quote str = 0x22 # t"
  by (simp add: quote_def)

lemma stringify_head:
  "\<exists>c t. stringify v = c # t \<and> \<not> is_ws c \<and> c \<noteq> 0x5D \<and> c \<noteq> 0x7D \<and> c \<noteq> 0x2C"
proof (cases v)
  case (JNumber n)
  from stringify_number_head [of n] obtain c t where
    "stringify_number n = c # t" "c = 0x6E \<or> c = 0x2D \<or> is_digit c" by blast
  then show ?thesis
    using JNumber digit_not_special [of c] by auto
qed (auto simp: js_def quote_def)

lemma skip_ws_stringify [simp]: "skip_ws (stringify v @ r) = stringify v @ r"
  using stringify_head [of v] by (auto simp: skip_ws_Cons)

lemma skip_ws_quote [simp]: "skip_ws (quote k @ r) = quote k @ r"
  by (simp add: quote_def skip_ws_Cons)

lemma skip_ws_delims [simp]:
  "skip_ws (0x2C # r) = 0x2C # r" "skip_ws (0x5D # r) = 0x5D # r" "skip_ws (0x7D # r) = 0x7D # r"
  "skip_ws (0x3A # r) = 0x3A # r" "skip_ws [] = []"
  by (simp_all add: skip_ws_def)

lemma at_delimiter_simps [simp]:
  "at_delimiter []" "at_delimiter (0x2C # r)" "at_delimiter (0x5D # r)" "at_delimiter (0x7D # r)"
  by (simp_all add: at_delimiter_def)


lemma parse_elements_last:
  assumes "parse_value s = Some (v, 0x5D # rest)"
  shows "parse_elements s = Some ([v], rest)"
  using assms by (simp add: parse_elements.simps [of s])

lemma parse_elements_more:
  assumes "parse_value (x @ 0x2C # stringify w @ r) = Some (v, 0x2C # stringify w @ r)"
    and "parse_elements (stringify w @ r) = Some (vs, rest)"
  shows "parse_elements (x @ 0x2C # stringify w @ r) = Some (v # vs, rest)"
  using assms by (simp add: parse_elements.simps [of "x @ 0x2C # stringify w @ r"])

lemma parse_members_last:
  assumes "parse_value (stringify v @ 0x7D # rest) = Some (v', 0x7D # rest)"
  shows "parse_members (quote k @ 0x3A # stringify v @ 0x7D # rest) = Some ([(k, v')], rest)"
  using assms parse_quote [of k "0x3A # stringify v @ 0x7D # rest"]
  by (simp add: parse_members.simps [of "quote k @ 0x3A # stringify v @ 0x7D # rest"])

lemma parse_members_more:
  assumes "parse_value (stringify v @ 0x2C # quote j @ r) = Some (v', 0x2C # quote j @ r)"
    and "parse_members (quote j @ r) = Some (ms, rest)"
  shows "parse_members (quote k @ 0x3A # stringify v @ 0x2C # quote j @ r)
            = Some ((k, v') # ms, rest)"
  using assms parse_quote [of k "0x3A # stringify v @ 0x2C # quote j @ r"]
  by (simp add: parse_members.simps [of "quote k @ 0x3A # stringify v @ 0x2C # quote j @ r"])

lemma parse_value_array:
  assumes "parse_elements (stringify v @ r) = Some (vs, rest)"
  shows "parse_value (0x5B # stringify v @ r) = Some (JArray vs, rest)"
proof -
  from stringify_head [of v] obtain c t where
    ct: "stringify v = c # t" "\<not> is_ws c" "c \<noteq> 0x5D" by blast
  have "skip_ws (c # t @ r) = c # t @ r" using ct(2) by (simp add: skip_ws_Cons)
  then show ?thesis
    using assms ct by (simp add: parse_value.simps [of "0x5B # _"])
qed

lemma parse_value_object:
  assumes "parse_members (quote k @ r) = Some (ms, rest)"
  shows "parse_value (0x7B # quote k @ r) = Some (mk_object ms, rest)"
proof -
  have "skip_ws (0x22 # t) = 0x22 # t" for t by (simp add: skip_ws_Cons)
  then show ?thesis
    using assms by (simp add: parse_value.simps [of "0x7B # _"] quote_def)
qed

lemma parse_stringify:
  "at_delimiter rest \<Longrightarrow> \<exists>v'. parse_value (stringify v @ rest) = Some (v', rest)"
  "vs \<noteq> [] \<Longrightarrow> \<exists>vs'. parse_elements (stringify_elements vs @ 0x5D # rest) = Some (vs', rest)"
  "ms \<noteq> [] \<Longrightarrow> \<exists>ms'. parse_members (stringify_members ms @ 0x7D # rest) = Some (ms', rest)"
proof (induction v and vs and ms arbitrary: rest and rest and rest
    rule: stringify_stringify_elements_stringify_members.induct)
  case 1
  show ?case by (simp add: js_def parse_value.simps [of "_ # _"] parse_literal_def)
next
  case (2 b)
  show ?case by (simp add: js_def parse_value.simps [of "_ # _"] parse_literal_def)
next
  case (3 n)
  then show ?case using parse_stringify_number by simp
next
  case (4 str)
  from parse_quote_chars [of str rest] show ?case
    by (auto simp: quote_def parse_value.simps [of "_ # _"])
next
  case (5 vs)
  show ?case
  proof (cases vs)
    case Nil
    then show ?thesis by (simp add: parse_value.simps [of "_ # _"])
  next
    case (Cons v vs')
    with 5(1) [of rest] obtain vs'' where
      "parse_elements (stringify_elements vs @ 0x5D # rest) = Some (vs'', rest)" by auto
    moreover obtain r where "stringify_elements vs @ 0x5D # rest = stringify v @ r"
      using Cons by (cases vs') auto
    ultimately show ?thesis
      using parse_value_array [of v r vs'' rest] by auto
  qed
next
  case (6 ms)
  show ?case
  proof (cases ms)
    case Nil
    then show ?thesis by (simp add: parse_value.simps [of "_ # _"])
  next
    case (Cons m ms')
    with 6(1) [of rest] obtain ms'' where
      "parse_members (stringify_members ms @ 0x7D # rest) = Some (ms'', rest)" by auto
    moreover obtain k r where "stringify_members ms @ 0x7D # rest = quote k @ r"
      using Cons by (cases m; cases ms') auto
    ultimately show ?thesis
      using parse_value_object [of k r ms'' rest] by auto
  qed
next
  case 7
  then show ?case by simp
next
  case (8 v)
  from 8(1) [of "0x5D # rest"] obtain v' where
    "parse_value (stringify v @ 0x5D # rest) = Some (v', 0x5D # rest)" by auto
  then show ?case using parse_elements_last by auto
next
  case (9 v w vs)
  obtain r where r: "stringify_elements (w # vs) @ 0x5D # rest = stringify w @ r"
    by (cases vs) auto
  from 9(1) [of "0x2C # stringify w @ r"] obtain v' where
    "parse_value (stringify v @ 0x2C # stringify w @ r) = Some (v', 0x2C # stringify w @ r)"
    by auto
  moreover from 9(2) [of rest] r obtain vs' where
    "parse_elements (stringify w @ r) = Some (vs', rest)" by auto
  ultimately show ?case
    using parse_elements_more [of "stringify v" w r v' vs' rest] r by auto
next
  case 10
  then show ?case by simp
next
  case (11 k v)
  from 11(1) [of "0x7D # rest"] obtain v' where
    "parse_value (stringify v @ 0x7D # rest) = Some (v', 0x7D # rest)" by auto
  then show ?case using parse_members_last [of v rest v' k] by auto
next
  case (12 k v m ms)
  obtain j r where r: "stringify_members (m # ms) @ 0x7D # rest = quote j @ r"
    by (cases m; cases ms) auto
  from 12(1) [of "0x2C # quote j @ r"] obtain v' where
    "parse_value (stringify v @ 0x2C # quote j @ r) = Some (v', 0x2C # quote j @ r)"
    by auto
  moreover from 12(2) [of rest] r obtain ms' where
    "parse_members (quote j @ r) = Some (ms', rest)" by auto
  ultimately show ?case
    using parse_members_more [of v j r v' ms' rest k] r by auto
qed

lemma JSON_parse_stringify: "\<exists>v'. JSON_parse (JSON_stringify v) = Some v'"
  using parse_stringify(1) [of "[]" v]
  by (auto simp: JSON_parse_def JSON_stringify_def simp del: skip_ws_stringify
      simp add: skip_ws_stringify [of v "[]", simplified])

text \<open>The default objects are read back as they were printed.\<close>

lemma parse_value_string:
  "parse_value (stringify (JString p) @ rest) = Some (JString p, rest)"
  using parse_quote_chars [of p rest]
  by (simp add: quote_def parse_value.simps [of "_ # _"])

lemma JSON_parse_one_field:
  "JSON_parse (JSON_stringify (JObject [(k, JString p)])) = Some (JObject [(k, JString p)])"
proof -
  have "parse_members (quote k @ 0x3A # stringify (JString p) @ 0x7D # [])
          = Some ([(k, JString p)], [])"
    by (rule parse_members_last) (rule parse_value_string)
  then have "parse_value (0x7B # quote k @ 0x3A # stringify (JString p) @ 0x7D # [])
          = Some (mk_object [(k, JString p)], [])"
    by (rule parse_value_object)
  moreover have "mk_object [(k, JString p)] = JObject [(k, JString p)]"
    by (simp add: mk_object_def obj_set_def)
  ultimately show ?thesis
    by (simp add: JSON_parse_def JSON_stringify_def skip_ws_Cons del: stringify.simps(4))
qed

lemma JSON_parse_two_fields:
  assumes "k \<noteq> j" and "\<not> is_array_index j"
  shows "JSON_parse (JSON_stringify (JObject [(k, JString p), (j, JString q)]))
           = Some (JObject [(k, JString p), (j, JString q)])"
proof -
  have "parse_members (quote j @ 0x3A # stringify (JString q) @ 0x7D # [])
          = Some ([(j, JString q)], [])"
    by (rule parse_members_last) (rule parse_value_string)
  then have "parse_members (quote k @ 0x3A # stringify (JString p) @ 0x2C # quote j
               @ 0x3A # stringify (JString q) @ 0x7D # [])
          = Some ([(k, JString p), (j, JString q)], [])"
    by (intro parse_members_more parse_value_string)
  then have "parse_value (0x7B # quote k @ 0x3A # stringify (JString p) @ 0x2C # quote j
               @ 0x3A # stringify (JString q) @ 0x7D # [])
          = Some (mk_object [(k, JString p), (j, JString q)], [])"
    by (rule parse_value_object)
  moreover have "mk_object [(k, JString p), (j, JString q)]
      = JObject [(k, JString p), (j, JString q)]"
    using assms by (auto simp: mk_object_def obj_set_def)
  ultimately show ?thesis
    by (simp add: JSON_parse_def JSON_stringify_def skip_ws_Cons del: stringify.simps(4))
qed

lemma JSON_parse_default_objects:
  "JSON_parse (JSON_stringify (JObject [(js ''selectedPerson'', JString p)]))
     = Some (JObject [(js ''selectedPerson'', JString p)])"
  "JSON_parse (JSON_stringify (JObject [(js ''selectedPerson'', JString p), (js ''botName'', JString p)]))
     = Some (JObject [(js ''selectedPerson'', JString p), (js ''botName'', JString p)])"
proof -
  show "JSON_parse (JSON_stringify (JObject [(js ''selectedPerson'', JString p)]))
     = Some (JObject [(js ''selectedPerson'', JString p)])"
    by (rule JSON_parse_one_field)
  have "js ''selectedPerson'' \<noteq> js ''botName''" by (simp add: js_def)
  moreover have "\<not> is_array_index (js ''botName'')"
    by (simp add: is_array_index_def js_def is_digit_def)
  ultimately show "JSON_parse (JSON_stringify (JObject [(js ''selectedPerson'', JString p),
        (js ''botName'', JString p)]))
     = Some (JObject [(js ''selectedPerson'', JString p), (js ''botName'', JString p)])"
    by (rule JSON_parse_two_fields)
qed

section \<open>Properties of the token endpoint\<close>

subsection \<open>The shape of a run\<close>

lemma GET_valid:
  assumes "query_roomName request = Some roomName" and "roomName \<noteq> []"
    and "query_participantName request = Some participantName" and "participantName \<noteq> []"
  shows "GET w request =
           issue w roomName participantName
             (case query_metadata request of None \<Rightarrow> [] | Some metadata \<Rightarrow> metadata)"
  using assms by (simp add: GET_def falsy_def)

lemma part_001_GET_valid:
  assumes "query_roomName request = Some roomName" and "roomName \<noteq> []"
    and "query_participantName request = Some participantName" and "participantName \<noteq> []"
  shows "part_001_GET w request =
           part_001_issue w roomName participantName
             (case query_metadata request of None \<Rightarrow> [] | Some metadata \<Rightarrow> metadata)"
  using assms by (simp add: part_001_GET_def falsy_def)

lemma GET_invalid:
  assumes "falsy (query_roomName request) \<or> falsy (query_participantName request)"
  shows "GET w request = (\<lparr>status = 400, body = Text (js ''Missing required parameters'')\<rparr>, [])"
    and "part_001_GET w request =
           (\<lparr>status = 400, body = Text (js ''Missing required parameters'')\<rparr>, [])"
  using assms by (simp_all add: GET_def part_001_GET_def)

lemma request_cases:
  obtains (invalid) "falsy (query_roomName request) \<or> falsy (query_participantName request)"
  | (valid) roomName participantName where
      "query_roomName request = Some roomName" "roomName \<noteq> []"
      "query_participantName request = Some participantName" "participantName \<noteq> []"
  by (cases "query_roomName request"; cases "query_participantName request")
     (auto simp: falsy_def)

lemma signing_calls_simps [simp]:
  "signing_calls [] = []"
  "signing_calls (Console_warn args # es) = signing_calls es"
  "signing_calls (Console_log args # es) = signing_calls es"
  "signing_calls (Console_error args # es) = signing_calls es"
  "signing_calls (Token_toJwt tok # es) = tok # signing_calls es"
  "signing_calls (es @ es') = signing_calls es @ signing_calls es'"
  by (simp_all add: signing_calls_def)

lemma ensure_valid_metadata_no_calls [simp]:
  "signing_calls (snd (ensure_valid_metadata participantName metadata0)) = []"
  by (simp add: ensure_valid_metadata_def split: option.split)

lemma part_001_ensure_valid_metadata_no_calls [simp]:
  "signing_calls (snd (part_001_ensure_valid_metadata participantName metadata0)) = []"
  by (simp add: part_001_ensure_valid_metadata_def split: sum.split)

lemma issue_signing_calls:
  "signing_calls (snd (issue w roomName participantName metadata0)) =
     [\<lparr>apiKey = API_KEY w, apiSecret = API_SECRET w,
       options = \<lparr>opt_identity = participantName @ js ''__'' @ randomString (random w) 4,
                   opt_name = participantName,
                   opt_metadata = fst (ensure_valid_metadata participantName metadata0)\<rparr>,
       ttl = Some (js ''5m''),
       video = Some \<lparr>room = roomName, roomJoin = True, canPublish = True,
                      canPublishData = True, canSubscribe = True\<rparr>\<rparr>]"
  by (simp add: issue_def createParticipantToken_def Let_def case_prod_beta split: option.split)

lemma part_001_issue_signing_calls:
  "signing_calls (snd (part_001_issue w roomName participantName metadata0)) =
     [\<lparr>apiKey = part_001_API_KEY w, apiSecret = part_001_API_SECRET w,
       options = \<lparr>opt_identity = participantName @ js ''__'' @ randomString (random w) 4,
                   opt_name = participantName,
                   opt_metadata = fst (part_001_ensure_valid_metadata participantName metadata0)\<rparr>,
       ttl = Some (js ''5m''),
       video = Some \<lparr>room = roomName, roomJoin = True, canPublish = True,
                      canPublishData = True, canSubscribe = True\<rparr>\<rparr>]"
  by (simp add: part_001_issue_def part_001_createParticipantToken_def Let_def case_prod_beta
      split: option.split)

text \<open>The response of a run that passed the validation is decided by the token library
  alone.\<close>

lemma issue_response:
  "fst (issue w roomName participantName metadata0) =
     (case toJwt w (hd (signing_calls (snd (issue w roomName participantName metadata0)))) of
        Some token \<Rightarrow>
          \<lparr>status = 200,
            body = Json \<lparr>details_serverUrl = LIVEKIT_URL w, details_roomName = roomName,
                          details_participantToken = token,
                          details_participantName = participantName\<rparr>\<rparr>
      | None \<Rightarrow> \<lparr>status = 500, body = Text (js ''Internal Server Error'')\<rparr>)"
  unfolding issue_signing_calls
  by (simp add: issue_def createParticipantToken_def Let_def case_prod_beta split: option.split)

lemma part_001_issue_response:
  "fst (part_001_issue w roomName participantName metadata0) =
     (case toJwt w (hd (signing_calls (snd (part_001_issue w roomName participantName metadata0)))) of
        Some token \<Rightarrow>
          \<lparr>status = 200,
            body = Json \<lparr>details_serverUrl = part_001_LIVEKIT_URL w, details_roomName = roomName,
                          details_participantToken = token,
                          details_participantName = participantName\<rparr>\<rparr>
      | None \<Rightarrow> \<lparr>status = 500, body = Text (js ''Internal Server Error'')\<rparr>)"
  unfolding part_001_issue_signing_calls
  by (simp add: part_001_issue_def part_001_createParticipantToken_def Let_def case_prod_beta
      split: option.split)

lemma alphanumerics_nth:
  assumes "i < 62"
  shows "is_alphanumeric (alphanumerics ! i)"
proof -
  have "list_all is_alphanumeric alphanumerics"
    by (simp add: alphanumerics_def js_def is_alphanumeric_def)
  moreover have "length alphanumerics = 62"
    by (simp add: alphanumerics_def js_def)
  ultimately show ?thesis
    using assms by (simp add: list_all_length)
qed

lemma randomString_alphanumeric:
  "length (randomString rnd n) = n \<and> list_all is_alphanumeric (randomString rnd n)"
  by (simp add: randomString_def list_all_iff alphanumerics_nth)


text \<open>
  Claim C3. When \<open>roomName\<close> or \<open>participantName\<close> is absent or the empty string, either
  handler answers with status 400 and does nothing else: the list of effects is empty, so
  nothing is logged and nothing is handed to the token library.
\<close>

theorem missing_parameter_rejected:
  assumes "handler = GET \<or> handler = part_001_GET"
    and "query_roomName request = None \<or> query_roomName request = Some []
         \<or> query_participantName request = None \<or> query_participantName request = Some []"
  shows "handler w request =
           (\<lparr>status = 400, body = Text (js ''Missing required parameters'')\<rparr>, [])
         \<and> signing_calls (snd (handler w request)) = []"
proof -
  have "falsy (query_roomName request) \<or> falsy (query_participantName request)"
    using assms(2) by (auto simp: falsy_def)
  then show ?thesis
    using assms(1) GET_invalid [of request w] by auto
qed

theorem missing_parameter_rejected_witness:
  "GET sample_world \<lparr>query_roomName = Some (js ''lobby''), query_participantName = Some [],
                      query_metadata = None\<rparr>
     = (\<lparr>status = 400, body = Text (js ''Missing required parameters'')\<rparr>, [])
   \<and> part_001_GET sample_world \<lparr>query_roomName = None, query_participantName = Some (js ''alice''),
                                 query_metadata = Some (js ''{}'')\<rparr>
     = (\<lparr>status = 400, body = Text (js ''Missing required parameters'')\<rparr>, [])"
  using missing_parameter_rejected [of GET "\<lparr>query_roomName = Some (js ''lobby''),
      query_participantName = Some [], query_metadata = None\<rparr>" sample_world]
    missing_parameter_rejected [of part_001_GET "\<lparr>query_roomName = None,
      query_participantName = Some (js ''alice''), query_metadata = Some (js ''{}'')\<rparr>" sample_world]
  by simp

text \<open>
  Claim C5. Whenever a handler answers with status 200, it handed exactly one token
  object to the library; that object has the time-to-live \<open>5m\<close> (five minutes) and the
  grant \<open>{room: roomName, roomJoin: true, canPublish: true, canPublishData: true,
  canSubscribe: true}\<close> for the room of the request, whatever the other inputs are; and
  the token in the response is the one the library returned for it.
\<close>

theorem issued_token_grant_and_ttl:
  assumes "handler = GET \<or> handler = part_001_GET"
    and "status (fst (handler w request)) = 200"
  shows "\<exists>roomName tok token details.
           query_roomName request = Some roomName
         \<and> signing_calls (snd (handler w request)) = [tok]
         \<and> ttl tok = Some (js ''5m'')
         \<and> video tok = Some \<lparr>room = roomName, roomJoin = True, canPublish = True,
                              canPublishData = True, canSubscribe = True\<rparr>
         \<and> toJwt w tok = Some token
         \<and> body (fst (handler w request)) = Json details
         \<and> details_participantToken details = token"
proof (cases request rule: request_cases)
  case invalid
  then have "status (fst (handler w request)) = 400"
    using assms(1) GET_invalid [of request w] by auto
  with assms(2) show ?thesis by simp
next
  case (valid roomName participantName)
  let ?m = "case query_metadata request of None \<Rightarrow> [] | Some metadata \<Rightarrow> metadata"
  from assms(1) show ?thesis
  proof
    assume h: "handler = GET"
    have run: "handler w request = issue w roomName participantName ?m"
      unfolding h by (rule GET_valid [OF valid])
    show ?thesis
      using assms(2) valid(1) issue_response [of w roomName participantName ?m]
      unfolding run issue_signing_calls
      by (auto split: option.splits)
  next
    assume h: "handler = part_001_GET"
    have run: "handler w request = part_001_issue w roomName participantName ?m"
      unfolding h by (rule part_001_GET_valid [OF valid])
    show ?thesis
      using assms(2) valid(1) part_001_issue_response [of w roomName participantName ?m]
      unfolding run part_001_issue_signing_calls
      by (auto split: option.splits)
  qed
qed

theorem issued_token_grant_and_ttl_witness:
  "status (fst (GET sample_world (sample_request None))) = 200
   \<and> map ttl (signing_calls (snd (GET sample_world (sample_request None)))) = [Some (js ''5m'')]
   \<and> map video (signing_calls (snd (GET sample_world (sample_request None))))
       = [Some \<lparr>room = js ''lobby'', roomJoin = True, canPublish = True,
                 canPublishData = True, canSubscribe = True\<rparr>]"
proof -
  have run: "GET sample_world (sample_request None) = issue sample_world (js ''lobby'') (js ''alice'') []"
    by (simp add: GET_def falsy_def sample_request_def js_def)
  have ok: "status (fst (GET sample_world (sample_request None))) = 200"
    unfolding run by (simp add: issue_response sample_world_def)
  from issued_token_grant_and_ttl [of GET sample_world "sample_request None", OF _ ok]
  obtain roomName tok where
    "query_roomName (sample_request None) = Some roomName"
    "signing_calls (snd (GET sample_world (sample_request None))) = [tok]"
    "ttl tok = Some (js ''5m'')"
    "video tok = Some \<lparr>room = roomName, roomJoin = True, canPublish = True,
                        canPublishData = True, canSubscribe = True\<rparr>"
    by auto
  with ok show ?thesis
    by (simp add: sample_request_def)
qed

text \<open>
  Claim C6. For every request that passes the validation, the identity of the token
  object handed to the library is \<open>participantName\<close>, then \<open>__\<close>, then a suffix of
  exactly four characters, each a letter or a digit.
\<close>

theorem participant_identity_format:
  assumes "handler = GET \<or> handler = part_001_GET"
    and "query_roomName request = Some roomName" and "roomName \<noteq> []"
    and "query_participantName request = Some participantName" and "participantName \<noteq> []"
  shows "\<exists>tok suffix.
           signing_calls (snd (handler w request)) = [tok]
         \<and> opt_identity (options tok) = participantName @ js ''__'' @ suffix
         \<and> length suffix = 4
         \<and> list_all is_alphanumeric suffix"
proof -
  let ?m = "case query_metadata request of None \<Rightarrow> [] | Some metadata \<Rightarrow> metadata"
  have suffix: "length (randomString (random w) 4) = 4
      \<and> list_all is_alphanumeric (randomString (random w) 4)"
    by (rule randomString_alphanumeric)
  from assms(1) show ?thesis
  proof
    assume h: "handler = GET"
    have "handler w request = issue w roomName participantName ?m"
      unfolding h by (rule GET_valid [OF assms(2-5)])
    then show ?thesis
      using suffix by (simp add: issue_signing_calls)
  next
    assume h: "handler = part_001_GET"
    have "handler w request = part_001_issue w roomName participantName ?m"
      unfolding h by (rule part_001_GET_valid [OF assms(2-5)])
    then show ?thesis
      using suffix by (simp add: part_001_issue_signing_calls)
  qed
qed

theorem participant_identity_format_witness:
  "query_roomName (sample_request None) = Some (js ''lobby'') \<and> js ''lobby'' \<noteq> []
   \<and> query_participantName (sample_request None) = Some (js ''alice'') \<and> js ''alice'' \<noteq> []
   \<and> (\<exists>tok suffix.
           signing_calls (snd (part_001_GET sample_world (sample_request None))) = [tok]
         \<and> opt_identity (options tok) = js ''alice'' @ js ''__'' @ suffix
         \<and> length suffix = 4
         \<and> list_all is_alphanumeric suffix)"
  using participant_identity_format [of part_001_GET "sample_request None" "js ''lobby''"
      "js ''alice''" sample_world]
  by (simp add: sample_request_def js_def)

subsection \<open>The metadata step\<close>

text \<open>Rules that run the parser on an input that is written out.\<close>

lemmas parse_eval =
  parse_value.simps [of "[]"] parse_elements.simps [of "[]"] parse_members.simps [of "[]"]
  parse_value.simps [of "c # t"] parse_elements.simps [of "c # t"] parse_members.simps [of "c # t"]
  for c t

lemmas json_eval =
  parse_eval JSON_parse_def JSON_stringify_def skip_ws_def is_ws_def js_def parse_string_def
  parse_literal_def mk_object_def obj_set_def is_array_index_def is_digit_def quote_def
  is_high_surrogate_def is_low_surrogate_def

lemmas metadata_eval =
  json_eval ensure_valid_metadata_def part_001_ensure_valid_metadata_def derive_botName_def
  get_selectedPerson_def set_botName_def logical_or_def ToBoolean_def

lemma ensure_valid_metadata_json:
  "\<exists>v. JSON_parse (fst (ensure_valid_metadata participantName metadata0)) = Some v"
  using JSON_parse_stringify
  by (cases "JSON_parse metadata0") (auto simp: ensure_valid_metadata_def)

lemma part_001_ensure_valid_metadata_json:
  "\<exists>v. JSON_parse (fst (part_001_ensure_valid_metadata participantName metadata0)) = Some v"
proof (cases "derive_botName participantName metadata0")
  case (Inl e)
  then show ?thesis
    using JSON_parse_stringify by (simp add: part_001_ensure_valid_metadata_def)
next
  case (Inr metadata')
  then obtain v where "metadata' = JSON_stringify v"
    by (auto simp: derive_botName_def split: option.splits sum.splits)
  then show ?thesis
    using Inr JSON_parse_stringify by (simp add: part_001_ensure_valid_metadata_def)
qed

lemma map_of_replace:
  assumes "k \<in> fst ` set kvs"
  shows "map_of (map (\<lambda>(k', v'). if k' = k then (k', x) else (k', v')) kvs) k = Some x"
  using assms
proof (induction kvs)
  case Nil
  then show ?case by simp
next
  case (Cons a kvs)
  obtain k1 v1 where a: "a = (k1, v1)" by (cases a)
  show ?case
  proof (cases "k1 = k")
    case True
    then show ?thesis by (simp add: a)
  next
    case False
    with Cons show ?thesis by (simp add: a)
  qed
qed

lemma map_of_obj_set:
  assumes "\<not> is_array_index k"
  shows "map_of (obj_set k x kvs) k = Some x"
proof (cases "k \<in> fst ` set kvs")
  case True
  then show ?thesis by (simp add: obj_set_def map_of_replace)
next
  case False
  then have "map_of kvs k = None"
    by (simp add: map_of_eq_None_iff)
  then show ?thesis using False assms by (simp add: obj_set_def map_add_def)
qed

lemma obj_set_botName:
  "map_of (obj_set (js ''botName'') x kvs) (js ''botName'') = Some x"
proof -
  have "\<not> is_array_index (js ''botName'')"
    by (simp add: is_array_index_def js_def is_digit_def)
  then show ?thesis by (rule map_of_obj_set)
qed

text \<open>
  Claim C4. Every token object that either handler hands to the library carries
  metadata that \<open>JSON.parse\<close> accepts: the request's own string when it parsed (first
  variant), the printed form of a parsed value (second variant), or the printed default
  object.
\<close>

theorem forwarded_metadata_is_json:
  assumes "handler = GET \<or> handler = part_001_GET"
    and "tok \<in> set (signing_calls (snd (handler w request)))"
  shows "\<exists>v. JSON_parse (opt_metadata (options tok)) = Some v"
proof (cases request rule: request_cases)
  case invalid
  then have "signing_calls (snd (handler w request)) = []"
    using assms(1) GET_invalid [of request w] by auto
  with assms(2) show ?thesis by simp
next
  case (valid roomName participantName)
  let ?m = "case query_metadata request of None \<Rightarrow> [] | Some metadata \<Rightarrow> metadata"
  from assms(1) show ?thesis
  proof
    assume h: "handler = GET"
    have "handler w request = issue w roomName participantName ?m"
      unfolding h by (rule GET_valid [OF valid])
    then have "opt_metadata (options tok) = fst (ensure_valid_metadata participantName ?m)"
      using assms(2) by (simp add: issue_signing_calls)
    then show ?thesis by (simp add: ensure_valid_metadata_json)
  next
    assume h: "handler = part_001_GET"
    have "handler w request = part_001_issue w roomName participantName ?m"
      unfolding h by (rule part_001_GET_valid [OF valid])
    then have "opt_metadata (options tok) = fst (part_001_ensure_valid_metadata participantName ?m)"
      using assms(2) by (simp add: part_001_issue_signing_calls)
    then show ?thesis by (simp add: part_001_ensure_valid_metadata_json)
  qed
qed

theorem forwarded_metadata_is_json_witness:
  \<open>map (opt_metadata \<circ> options)
       (signing_calls (snd (part_001_GET sample_world (sample_request (Some (js ''{"a":tru}''))))))
     = [js ''{"selectedPerson":"alice","botName":"alice"}'']
   \<and> (\<exists>v. JSON_parse (js ''{"selectedPerson":"alice","botName":"alice"}'') = Some v)\<close>
proof -
  let ?run = \<open>part_001_GET sample_world (sample_request (Some (js ''{"a":tru}'')))\<close>
  have run: \<open>?run = part_001_issue sample_world (js ''lobby'') (js ''alice'') (js ''{"a":tru}'')\<close>
    by (simp add: part_001_GET_def falsy_def sample_request_def js_def)
  have m: \<open>fst (part_001_ensure_valid_metadata (js ''alice'') (js ''{"a":tru}''))
      = js ''{"selectedPerson":"alice","botName":"alice"}''\<close>
    by (simp add: metadata_eval)
  have calls: \<open>map (opt_metadata \<circ> options) (signing_calls (snd ?run))
      = [js ''{"selectedPerson":"alice","botName":"alice"}'']\<close>
    unfolding run by (simp add: part_001_issue_signing_calls m)
  then obtain tok where tok: "tok \<in> set (signing_calls (snd ?run))"
    \<open>opt_metadata (options tok) = js ''{"selectedPerson":"alice","botName":"alice"}''\<close>
    by (cases "signing_calls (snd ?run)") auto
  from forwarded_metadata_is_json [of part_001_GET tok sample_world, OF _ tok(1)] tok(2) calls
  show ?thesis by simp
qed

text \<open>
  Claim C1. When both required parameters are given and the metadata string of the
  request (the empty string when the parameter is absent) does not parse as JSON, each
  handler hands the library one token object whose metadata is the printed default
  object: \<open>{selectedPerson: participantName}\<close> in \<^verbatim>\<open>route.ts\<close>, \<open>{selectedPerson:
  participantName, botName: participantName}\<close> in \<^verbatim>\<open>part_001\<close>. That metadata parses
  as JSON to the default object, it is not the string of the request, and the failed
  parse causes no error response: the status is 200 unless the token library itself
  fails.
\<close>

theorem invalid_metadata_replaced_by_default:
  assumes "query_roomName request = Some roomName" and "roomName \<noteq> []"
    and "query_participantName request = Some participantName" and "participantName \<noteq> []"
    and "raw = (case query_metadata request of None \<Rightarrow> [] | Some metadata \<Rightarrow> metadata)"
    and "JSON_parse raw = None"
  shows "(\<exists>tok. signing_calls (snd (GET w request)) = [tok]
            \<and> opt_metadata (options tok)
                = JSON_stringify (JObject [(js ''selectedPerson'', JString participantName)])
            \<and> JSON_parse (opt_metadata (options tok))
                = Some (JObject [(js ''selectedPerson'', JString participantName)])
            \<and> opt_metadata (options tok) \<noteq> raw
            \<and> status (fst (GET w request)) = (if toJwt w tok = None then 500 else 200))
       \<and> (\<exists>tok. signing_calls (snd (part_001_GET w request)) = [tok]
            \<and> opt_metadata (options tok)
                = JSON_stringify (JObject [(js ''selectedPerson'', JString participantName),
                                           (js ''botName'', JString participantName)])
            \<and> JSON_parse (opt_metadata (options tok))
                = Some (JObject [(js ''selectedPerson'', JString participantName),
                                 (js ''botName'', JString participantName)])
            \<and> opt_metadata (options tok) \<noteq> raw
            \<and> status (fst (part_001_GET w request)) = (if toJwt w tok = None then 500 else 200))"
proof -
  have differs: "JSON_stringify v \<noteq> raw" for v
    using JSON_parse_stringify [of v] assms(6) by auto
  have run: "GET w request = issue w roomName participantName raw"
    unfolding assms(5) by (rule GET_valid [OF assms(1-4)])
  have m: "fst (ensure_valid_metadata participantName raw)
      = JSON_stringify (JObject [(js ''selectedPerson'', JString participantName)])"
    using assms(6) by (simp add: ensure_valid_metadata_def)
  have first: "\<exists>tok. signing_calls (snd (GET w request)) = [tok]
            \<and> opt_metadata (options tok)
                = JSON_stringify (JObject [(js ''selectedPerson'', JString participantName)])
            \<and> JSON_parse (opt_metadata (options tok))
                = Some (JObject [(js ''selectedPerson'', JString participantName)])
            \<and> opt_metadata (options tok) \<noteq> raw
            \<and> status (fst (GET w request)) = (if toJwt w tok = None then 500 else 200)"
    unfolding run
    using differs issue_response [of w roomName participantName raw]
    by (auto simp: issue_signing_calls m JSON_parse_default_objects split: option.splits)
  have run': "part_001_GET w request = part_001_issue w roomName participantName raw"
    unfolding assms(5) by (rule part_001_GET_valid [OF assms(1-4)])
  have m': "fst (part_001_ensure_valid_metadata participantName raw)
      = JSON_stringify (JObject [(js ''selectedPerson'', JString participantName),
                                 (js ''botName'', JString participantName)])"
    using assms(6) by (simp add: part_001_ensure_valid_metadata_def derive_botName_def)
  have second: "\<exists>tok. signing_calls (snd (part_001_GET w request)) = [tok]
            \<and> opt_metadata (options tok)
                = JSON_stringify (JObject [(js ''selectedPerson'', JString participantName),
                                           (js ''botName'', JString participantName)])
            \<and> JSON_parse (opt_metadata (options tok))
                = Some (JObject [(js ''selectedPerson'', JString participantName),
                                 (js ''botName'', JString participantName)])
            \<and> opt_metadata (options tok) \<noteq> raw
            \<and> status (fst (part_001_GET w request)) = (if toJwt w tok = None then 500 else 200)"
    unfolding run'
    using differs part_001_issue_response [of w roomName participantName raw]
    by (auto simp: part_001_issue_signing_calls m' JSON_parse_default_objects split: option.splits)
  from first second show ?thesis by blast
qed

theorem invalid_metadata_replaced_by_default_witness:
  \<open>JSON_parse [] = None
   \<and> map (opt_metadata \<circ> options) (signing_calls (snd (GET sample_world (sample_request None))))
       = [js ''{"selectedPerson":"alice"}'']
   \<and> status (fst (GET sample_world (sample_request None))) = 200
   \<and> map (opt_metadata \<circ> options)
        (signing_calls (snd (part_001_GET sample_world (sample_request None))))
       = [js ''{"selectedPerson":"alice","botName":"alice"}'']
   \<and> status (fst (part_001_GET sample_world (sample_request None))) = 200
   \<and> JSON_parse (js ''{"selectedPerson":"alice","botName":"alice"}'')
       = Some (JObject [(js ''selectedPerson'', JString (js ''alice'')),
                        (js ''botName'', JString (js ''alice''))])\<close>
proof -
  have none: "JSON_parse [] = None"
    by (simp add: json_eval)
  have decoded: \<open>JSON_parse (js ''{"selectedPerson":"alice","botName":"alice"}'')
       = Some (JObject [(js ''selectedPerson'', JString (js ''alice'')),
                        (js ''botName'', JString (js ''alice''))])\<close>
    by (simp add: json_eval)
  have signs: "toJwt sample_world tok \<noteq> None" for tok
    by (simp add: sample_world_def)
  have p1: \<open>JSON_stringify (JObject [(js ''selectedPerson'', JString (js ''alice''))])
      = js ''{"selectedPerson":"alice"}''\<close>
    by (simp add: json_eval)
  have p2: \<open>JSON_stringify (JObject [(js ''selectedPerson'', JString (js ''alice'')),
                                     (js ''botName'', JString (js ''alice''))])
      = js ''{"selectedPerson":"alice","botName":"alice"}''\<close>
    by (simp add: json_eval)
  have ne: "js ''lobby'' \<noteq> []" "js ''alice'' \<noteq> []"
    by (simp_all add: js_def)
  from invalid_metadata_replaced_by_default [of "sample_request None" "js ''lobby''" "js ''alice''" "[]"
      sample_world, OF _ ne(1) _ ne(2) _ none]
  show ?thesis
    using none signs decoded by (auto simp: sample_request_def p1 p2)
qed


text \<open>
  Claim C2, as the code has it. In \<^verbatim>\<open>part_001\<close>, when the metadata string parses as JSON
  to a value other than an array, the metadata handed to the library is a printed object
  whose \<open>botName\<close> is the parsed object's \<open>selectedPerson\<close> when that field is present and
  truthy (not \<open>null\<close>, \<open>false\<close>, zero or the empty string), and \<open>participantName\<close> otherwise.
  For a parsed object it is that object with \<open>botName\<close> written into it.
\<close>

theorem botName_derived_from_selectedPerson:
  assumes "query_roomName request = Some roomName" and "roomName \<noteq> []"
    and "query_participantName request = Some participantName" and "participantName \<noteq> []"
    and "raw = (case query_metadata request of None \<Rightarrow> [] | Some metadata \<Rightarrow> metadata)"
    and "JSON_parse raw = Some parsed"
    and "\<forall>vs. parsed \<noteq> JArray vs"
    and "selected = (case parsed of JObject kvs \<Rightarrow> map_of kvs (js ''selectedPerson'') | _ \<Rightarrow> None)"
    and "botName = (case selected of
                      None \<Rightarrow> JString participantName
                    | Some v \<Rightarrow> if ToBoolean v then v else JString participantName)"
  shows "\<exists>tok kvs'.
           signing_calls (snd (part_001_GET w request)) = [tok]
         \<and> opt_metadata (options tok) = JSON_stringify (JObject kvs')
         \<and> map_of kvs' (js ''botName'') = Some botName
         \<and> (\<forall>kvs. parsed = JObject kvs \<longrightarrow> kvs' = obj_set (js ''botName'') botName kvs)"
proof -
  let ?default = "[(js ''selectedPerson'', JString participantName),
                   (js ''botName'', JString participantName)]"
  have run: "part_001_GET w request = part_001_issue w roomName participantName raw"
    unfolding assms(5) by (rule part_001_GET_valid [OF assms(1-4)])
  obtain tok where tok: "signing_calls (snd (part_001_GET w request)) = [tok]"
    "opt_metadata (options tok) = fst (part_001_ensure_valid_metadata participantName raw)"
    unfolding run by (simp add: part_001_issue_signing_calls)
  have b: "botName = logical_or selected (JString participantName)"
    by (simp add: assms(9) logical_or_def)
  have bn: "map_of ?default (js ''botName'') = Some (JString participantName)"
    by (simp add: js_def)
  have primitive: ?thesis
    if d: "fst (part_001_ensure_valid_metadata participantName raw)
             = JSON_stringify (JObject ?default)"
      and s: "selected = None" and o: "\<forall>kvs. parsed \<noteq> JObject kvs"
  proof -
    have "botName = JString participantName" using s assms(9) by simp
    with bn have "map_of ?default (js ''botName'') = Some botName" by simp
    with tok d o show ?thesis by metis
  qed
  show ?thesis
  proof (cases parsed)
    case (JObject kvs)
    then have "fst (part_001_ensure_valid_metadata participantName raw)
        = JSON_stringify (JObject (obj_set (js ''botName'') botName kvs))"
      using assms(6,8) b
      by (simp add: part_001_ensure_valid_metadata_def derive_botName_def get_selectedPerson_def
          set_botName_def)
    with tok JObject obj_set_botName [of botName kvs] show ?thesis
      by (metis json.inject(5))
  next
    case (JArray vs)
    with assms(7) show ?thesis by simp
  next
    case JNull
    show ?thesis
    proof (rule primitive)
      show "fst (part_001_ensure_valid_metadata participantName raw)
             = JSON_stringify (JObject ?default)"
        using assms(6) JNull
        by (simp add: part_001_ensure_valid_metadata_def derive_botName_def get_selectedPerson_def)
    qed (simp_all add: assms(8) JNull)
  next
    case (JBool x)
    show ?thesis
    proof (rule primitive)
      show "fst (part_001_ensure_valid_metadata participantName raw)
             = JSON_stringify (JObject ?default)"
        using assms(6) JBool
        by (simp add: part_001_ensure_valid_metadata_def derive_botName_def get_selectedPerson_def
            set_botName_def)
    qed (simp_all add: assms(8) JBool)
  next
    case (JNumber x)
    show ?thesis
    proof (rule primitive)
      show "fst (part_001_ensure_valid_metadata participantName raw)
             = JSON_stringify (JObject ?default)"
        using assms(6) JNumber
        by (simp add: part_001_ensure_valid_metadata_def derive_botName_def get_selectedPerson_def
            set_botName_def)
    qed (simp_all add: assms(8) JNumber)
  next
    case (JString x)
    show ?thesis
    proof (rule primitive)
      show "fst (part_001_ensure_valid_metadata participantName raw)
             = JSON_stringify (JObject ?default)"
        using assms(6) JString
        by (simp add: part_001_ensure_valid_metadata_def derive_botName_def get_selectedPerson_def
            set_botName_def)
    qed (simp_all add: assms(8) JString)
  qed
qed

theorem botName_derived_from_selectedPerson_witness:
  \<open>JSON_parse (js ''{"selectedPerson":"bob"}'')
     = Some (JObject [(js ''selectedPerson'', JString (js ''bob''))])
   \<and> map (opt_metadata \<circ> options)
        (signing_calls (snd (part_001_GET sample_world
           (sample_request (Some (js ''{"selectedPerson":"bob"}''))))))
       = [js ''{"selectedPerson":"bob","botName":"bob"}'']\<close>
proof -
  let ?raw = \<open>js ''{"selectedPerson":"bob"}''\<close>
  let ?kvs = "[(js ''selectedPerson'', JString (js ''bob''))]"
  have parsed: "JSON_parse ?raw = Some (JObject ?kvs)"
    by (simp add: json_eval)
  have sel: "Some (JString (js ''bob''))
      = (case JObject ?kvs of JObject kvs \<Rightarrow> map_of kvs (js ''selectedPerson'') | _ \<Rightarrow> None)"
    by simp
  have bot: "JString (js ''bob'')
      = (case Some (JString (js ''bob'')) of
           None \<Rightarrow> JString (js ''alice'')
         | Some v \<Rightarrow> if ToBoolean v then v else JString (js ''alice''))"
    by (simp add: ToBoolean_def js_def)
  have ne: "js ''lobby'' \<noteq> []" "js ''alice'' \<noteq> []"
    by (simp_all add: js_def)
  have printed: \<open>JSON_stringify (JObject (obj_set (js ''botName'') (JString (js ''bob'')) ?kvs))
      = js ''{"selectedPerson":"bob","botName":"bob"}''\<close>
    by (simp add: json_eval)
  from botName_derived_from_selectedPerson [of "sample_request (Some ?raw)" "js ''lobby''"
      "js ''alice''" ?raw "JObject ?kvs" "Some (JString (js ''bob''))" "JString (js ''bob'')"
      sample_world, OF _ ne(1) _ ne(2) _ parsed _ sel bot]
  obtain tok kvs' where
    "signing_calls (snd (part_001_GET sample_world (sample_request (Some ?raw)))) = [tok]"
    "opt_metadata (options tok) = JSON_stringify (JObject kvs')"
    "kvs' = obj_set (js ''botName'') (JString (js ''bob'')) ?kvs"
    by (auto simp: sample_request_def)
  then show ?thesis
    using parsed printed by simp
qed

text \<open>The claim as the spec words it fails in two places: a \<open>selectedPerson\<close> that is
  present but falsy (here the empty string) does not become the \<open>botName\<close>, and a parsed
  array is printed again with no \<open>botName\<close> at all.\<close>

theorem botName_counterexample:
  \<open>JSON_parse (js ''{"selectedPerson":""}'') = Some (JObject [(js ''selectedPerson'', JString [])])
   \<and> map (opt_metadata \<circ> options)
        (signing_calls (snd (part_001_GET sample_world
           (sample_request (Some (js ''{"selectedPerson":""}''))))))
       = [js ''{"selectedPerson":"","botName":"alice"}'']
   \<and> JSON_parse (js ''[true]'') = Some (JArray [JBool True])
   \<and> map (opt_metadata \<circ> options)
        (signing_calls (snd (part_001_GET sample_world (sample_request (Some (js ''[true]''))))))
       = [js ''[true]'']\<close>
proof -
  have run: "part_001_GET sample_world (sample_request (Some m))
      = part_001_issue sample_world (js ''lobby'') (js ''alice'') m" for m
    by (simp add: part_001_GET_def falsy_def sample_request_def js_def)
  have \<open>JSON_parse (js ''{"selectedPerson":""}'') = Some (JObject [(js ''selectedPerson'', JString [])])\<close>
    by (simp add: json_eval)
  moreover have \<open>fst (part_001_ensure_valid_metadata (js ''alice'') (js ''{"selectedPerson":""}''))
      = js ''{"selectedPerson":"","botName":"alice"}''\<close>
    by (simp add: metadata_eval)
  moreover have \<open>JSON_parse (js ''[true]'') = Some (JArray [JBool True])\<close>
    by (simp add: json_eval)
  moreover have \<open>fst (part_001_ensure_valid_metadata (js ''alice'') (js ''[true]'')) = js ''[true]''\<close>
    by (simp add: metadata_eval)
  ultimately show ?thesis
    by (simp add: run part_001_issue_signing_calls)
qed


lemma part_001_issue_logs_repair:
  assumes "e \<in> set (snd (part_001_ensure_valid_metadata participantName metadata0))"
  shows "e \<in> set (snd (part_001_issue w roomName participantName metadata0))"
  using assms
  by (simp add: part_001_issue_def Let_def case_prod_beta split: option.split)

text \<open>
  Claim C9, as the code has it. In \<^verbatim>\<open>part_001\<close>, a metadata string that parses as
  \<open>null\<close>, a boolean, a number or a string is replaced by the printed default object
  \<open>{selectedPerson: participantName, botName: participantName}\<close>: the property access or
  the assignment throws, and the \<open>catch\<close> that handles a failed parse handles this too
  (it logs the same line). The metadata handed to the library parses as JSON to the
  default object and is not the string of the request.
\<close>

theorem primitive_metadata_replaced_by_default:
  assumes "query_roomName request = Some roomName" and "roomName \<noteq> []"
    and "query_participantName request = Some participantName" and "participantName \<noteq> []"
    and "raw = (case query_metadata request of None \<Rightarrow> [] | Some metadata \<Rightarrow> metadata)"
    and "JSON_parse raw = Some parsed"
    and "parsed = JNull \<or> (\<exists>b. parsed = JBool b) \<or> (\<exists>n. parsed = JNumber n)
         \<or> (\<exists>str. parsed = JString str)"
  shows "\<exists>tok. signing_calls (snd (part_001_GET w request)) = [tok]
           \<and> opt_metadata (options tok)
               = JSON_stringify (JObject [(js ''selectedPerson'', JString participantName),
                                          (js ''botName'', JString participantName)])
           \<and> JSON_parse (opt_metadata (options tok))
               = Some (JObject [(js ''selectedPerson'', JString participantName),
                                (js ''botName'', JString participantName)])
           \<and> opt_metadata (options tok) \<noteq> raw
           \<and> Console_error [Str (0x274C # js '' Invalid JSON metadata: '' @ raw)]
               \<in> set (snd (part_001_GET w request))"
proof -
  let ?default = "[(js ''selectedPerson'', JString participantName),
                   (js ''botName'', JString participantName)]"
  have run: "part_001_GET w request = part_001_issue w roomName participantName raw"
    unfolding assms(5) by (rule part_001_GET_valid [OF assms(1-4)])
  have thrown: "derive_botName participantName raw = Inl TypeError"
    using assms(6,7)
    by (auto simp: derive_botName_def get_selectedPerson_def set_botName_def)
  then have repaired: "part_001_ensure_valid_metadata participantName raw
      = (JSON_stringify (JObject ?default),
         [Console_error [Str (0x274C # js '' Invalid JSON metadata: '' @ raw)]])"
    by (simp add: part_001_ensure_valid_metadata_def)
  have differs: "JSON_stringify (JObject ?default) \<noteq> raw"
  proof
    assume "JSON_stringify (JObject ?default) = raw"
    then have "JSON_parse (JSON_stringify (JObject ?default)) = Some parsed"
      using assms(6) by simp
    then have "parsed = JObject ?default"
      by (simp add: JSON_parse_default_objects)
    with assms(7) show False by auto
  qed
  have logged: "Console_error [Str (0x274C # js '' Invalid JSON metadata: '' @ raw)]
      \<in> set (snd (part_001_GET w request))"
    unfolding run by (rule part_001_issue_logs_repair) (simp add: repaired)
  show ?thesis
    using differs logged unfolding run
    by (simp add: part_001_issue_signing_calls repaired JSON_parse_default_objects)
qed

theorem primitive_metadata_replaced_by_default_witness:
  \<open>JSON_parse (js ''"Ram"'') = Some (JString (js ''Ram''))
   \<and> map (opt_metadata \<circ> options)
        (signing_calls (snd (part_001_GET sample_world (sample_request (Some (js ''"Ram"''))))))
       = [js ''{"selectedPerson":"alice","botName":"alice"}'']\<close>
proof -
  let ?raw = \<open>js ''"Ram"''\<close>
  have parsed: "JSON_parse ?raw = Some (JString (js ''Ram''))"
    by (simp add: json_eval)
  have ne: "js ''lobby'' \<noteq> []" "js ''alice'' \<noteq> []"
    by (simp_all add: js_def)
  have printed: \<open>JSON_stringify (JObject [(js ''selectedPerson'', JString (js ''alice'')),
                                          (js ''botName'', JString (js ''alice''))])
      = js ''{"selectedPerson":"alice","botName":"alice"}''\<close>
    by (simp add: json_eval)
  from primitive_metadata_replaced_by_default [of "sample_request (Some ?raw)" "js ''lobby''"
      "js ''alice''" ?raw "JString (js ''Ram'')" sample_world, OF _ ne(1) _ ne(2) _ parsed]
  obtain tok where
    "signing_calls (snd (part_001_GET sample_world (sample_request (Some ?raw)))) = [tok]"
    "opt_metadata (options tok)
       = JSON_stringify (JObject [(js ''selectedPerson'', JString (js ''alice'')),
                                  (js ''botName'', JString (js ''alice''))])"
    by (auto simp: sample_request_def)
  then show ?thesis
    using parsed printed by simp
qed

text \<open>The claim as worded, that no value other than an object is forwarded, fails for
  an array: the assignment succeeds on it, and the array is printed and forwarded.\<close>

theorem array_metadata_counterexample:
  \<open>JSON_parse (js ''[]'') = Some (JArray [])
   \<and> map (opt_metadata \<circ> options)
        (signing_calls (snd (part_001_GET sample_world (sample_request (Some (js ''[]''))))))
       = [js ''[]'']\<close>
proof -
  have run: "part_001_GET sample_world (sample_request (Some m))
      = part_001_issue sample_world (js ''lobby'') (js ''alice'') m" for m
    by (simp add: part_001_GET_def falsy_def sample_request_def js_def)
  have \<open>JSON_parse (js ''[]'') = Some (JArray [])\<close>
    by (simp add: json_eval)
  moreover have \<open>fst (part_001_ensure_valid_metadata (js ''alice'') (js ''[]'')) = js ''[]''\<close>
    by (simp add: metadata_eval)
  ultimately show ?thesis
    by (simp add: run part_001_issue_signing_calls)
qed

subsection \<open>Resolving the server address\<close>

text \<open>
  Claim C8, as the code has it. \<open>getLiveKitURL\<close> looks up the key \<open>LIVEKIT_URL\<close> when no
  region is given (\<open>null\<close> or the empty string) and otherwise the upper-cased
  \<open>LIVEKIT_URL_<region>\<close>. It returns the value stored under that key when there is one
  and it is not the empty string; it throws the Error \<open><key> is not defined\<close> when the
  entry is absent and also when it is the empty string.
\<close>

theorem getLiveKitURL_resolution:
  assumes "key = (case region of
                    None \<Rightarrow> js ''LIVEKIT_URL''
                  | Some r \<Rightarrow> if r = [] then js ''LIVEKIT_URL''
                              else toUpperCase w (js ''LIVEKIT_URL_'' @ r))"
  shows "(\<forall>url. process_env w key = Some url \<and> url \<noteq> [] \<longrightarrow> getLiveKitURL w region = Inr url)
       \<and> (process_env w key = None \<or> process_env w key = Some [] \<longrightarrow>
            getLiveKitURL w region = Inl (Error (key @ js '' is not defined'')))"
  using assms by (auto simp: getLiveKitURL_def falsy_def Let_def split: option.splits)

theorem getLiveKitURL_resolution_witness:
  "getLiveKitURL (sample_world\<lparr>process_env := [js ''LIVEKIT_URL_EU'' \<mapsto> js ''wss://eu.example'']\<rparr>)
       (Some (js ''eu'')) = Inr (js ''wss://eu.example'')
   \<and> getLiveKitURL sample_world None = Inr (js ''ws://livekit:7880'')
   \<and> getLiveKitURL sample_world (Some (js ''eu'')) = Inl (Error (js ''LIVEKIT_URL_EU is not defined''))"
proof -
  let ?w = "sample_world\<lparr>process_env := [js ''LIVEKIT_URL_EU'' \<mapsto> js ''wss://eu.example'']\<rparr>"
  have up: "toUpperCase_ascii (js ''LIVEKIT_URL_'' @ js ''eu'') = js ''LIVEKIT_URL_EU''"
    by (simp add: toUpperCase_ascii_def js_def)
  have key: "js ''LIVEKIT_URL_EU'' = (case Some (js ''eu'') of
                    None \<Rightarrow> js ''LIVEKIT_URL''
                  | Some r \<Rightarrow> if r = [] then js ''LIVEKIT_URL''
                              else toUpperCase ?w (js ''LIVEKIT_URL_'' @ r))"
    using up by (simp add: sample_world_def js_def)
  have key': "js ''LIVEKIT_URL_EU'' = (case Some (js ''eu'') of
                    None \<Rightarrow> js ''LIVEKIT_URL''
                  | Some r \<Rightarrow> if r = [] then js ''LIVEKIT_URL''
                              else toUpperCase sample_world (js ''LIVEKIT_URL_'' @ r))"
    using up by (simp add: sample_world_def js_def)
  have key0: "js ''LIVEKIT_URL'' = (case None of
                    None \<Rightarrow> js ''LIVEKIT_URL''
                  | Some r \<Rightarrow> if r = [] then js ''LIVEKIT_URL''
                              else toUpperCase sample_world (js ''LIVEKIT_URL_'' @ r))"
    by simp
  have "getLiveKitURL ?w (Some (js ''eu'')) = Inr (js ''wss://eu.example'')"
    using getLiveKitURL_resolution [OF key] by (simp add: js_def)
  moreover have "getLiveKitURL sample_world None = Inr (js ''ws://livekit:7880'')"
    using getLiveKitURL_resolution [OF key0] by (simp add: sample_world_def js_def)
  moreover have "getLiveKitURL sample_world (Some (js ''eu''))
      = Inl (Error (js ''LIVEKIT_URL_EU is not defined''))"
    using getLiveKitURL_resolution [OF key'] by (simp add: sample_world_def js_def)
  ultimately show ?thesis by simp
qed

text \<open>The claim as the spec words it, that the value stored under the key is returned,
  fails for a stored empty string: the entry is there and the function throws.\<close>

theorem getLiveKitURL_empty_value_counterexample:
  "process_env (sample_world\<lparr>process_env := [js ''LIVEKIT_URL'' \<mapsto> []]\<rparr>) (js ''LIVEKIT_URL'')
     = Some []
   \<and> getLiveKitURL (sample_world\<lparr>process_env := [js ''LIVEKIT_URL'' \<mapsto> []]\<rparr>) None
     = Inl (Error (js ''LIVEKIT_URL is not defined''))"
  by (simp add: getLiveKitURL_def falsy_def js_def)

section \<open>Properties of the selector component\<close>

lemma Dropdown_shown_options:
  "shown_options (Dropdown_render st) = (if isOpen st then Some Dropdown_people else None)"
  by (simp add: shown_options_def Dropdown_render_def Dropdown_people_def Dropdown_option_def)

lemma Dropdown_click_open_option:
  assumes "isOpen st" and "i < length Dropdown_people"
  shows "Dropdown_dispatch st (ClickOption i) =
           (st\<lparr>selectedPerson := Dropdown_people ! i, isOpen := False\<rparr>, [Dropdown_people ! i])"
proof -
  have "i < 3" using assms(2) by (simp add: Dropdown_people_def)
  then consider "i = 0" | "i = 1" | "i = 2" by linarith
  then show ?thesis
    using assms(1)
    by cases
      (simp_all add: Dropdown_dispatch_def Dropdown_render_def Dropdown_people_def
        Dropdown_option_def Dropdown_option_onClick_def)
qed

text \<open>
  Claim C7. The selector of \<^verbatim>\<open>frontend/components/Dropdown.tsx\<close> starts closed with
  the selection \<open>Ram\<close>; while it is open it shows exactly the options \<open>Ram\<close>, \<open>Shyam\<close>,
  \<open>Ketan\<close>; and a click on any shown option makes that option the displayed selection,
  calls \<open>onSelect\<close> once with that option, and closes the list.
\<close>

theorem Dropdown_selector:
  assumes "isOpen st" and "i < length [''Ram'', ''Shyam'', ''Ketan'']"
  shows "isOpen Dropdown_init = False
    \<and> selection_text (Dropdown_render Dropdown_init) = ''Ram''
    \<and> shown_options (Dropdown_render Dropdown_init) = None
    \<and> shown_options (Dropdown_render st) = Some [''Ram'', ''Shyam'', ''Ketan'']
    \<and> Dropdown_dispatch st (ClickOption i) =
           (\<lparr>isOpen = False, selectedPerson = [''Ram'', ''Shyam'', ''Ketan''] ! i\<rparr>,
            [[''Ram'', ''Shyam'', ''Ketan''] ! i])
    \<and> selection_text (Dropdown_render (fst (Dropdown_dispatch st (ClickOption i)))) =
           [''Ram'', ''Shyam'', ''Ketan''] ! i
    \<and> shown_options (Dropdown_render (fst (Dropdown_dispatch st (ClickOption i)))) = None"
proof -
  have i: "i < length Dropdown_people"
    using assms(2) by (simp add: Dropdown_people_def)
  have init: "isOpen Dropdown_init = False"
    by (simp add: Dropdown_init_def)
  have init_text: "selection_text (Dropdown_render Dropdown_init) = ''Ram''"
    by (simp add: Dropdown_init_def Dropdown_render_def)
  have init_closed: "shown_options (Dropdown_render Dropdown_init) = None"
    by (simp add: Dropdown_shown_options Dropdown_init_def)
  have opened: "shown_options (Dropdown_render st) = Some [''Ram'', ''Shyam'', ''Ketan'']"
    using assms(1) by (simp add: Dropdown_shown_options Dropdown_people_def)
  have step: "Dropdown_dispatch st (ClickOption i) =
      (st\<lparr>selectedPerson := Dropdown_people ! i, isOpen := False\<rparr>, [Dropdown_people ! i])"
    by (rule Dropdown_click_open_option [OF assms(1) i])
  have chosen: "Dropdown_dispatch st (ClickOption i) =
           (\<lparr>isOpen = False, selectedPerson = [''Ram'', ''Shyam'', ''Ketan''] ! i\<rparr>,
            [[''Ram'', ''Shyam'', ''Ketan''] ! i])"
    unfolding step by (simp add: Dropdown_people_def)
  have chosen_text:
    "selection_text (Dropdown_render (fst (Dropdown_dispatch st (ClickOption i)))) =
           [''Ram'', ''Shyam'', ''Ketan''] ! i"
    unfolding step by (simp add: Dropdown_render_def Dropdown_people_def)
  have chosen_closed:
    "shown_options (Dropdown_render (fst (Dropdown_dispatch st (ClickOption i)))) = None"
    unfolding step by (simp add: Dropdown_shown_options)
  from init init_text init_closed opened chosen chosen_text chosen_closed
  show ?thesis by blast
qed

theorem Dropdown_selector_witness:
  "isOpen \<lparr>isOpen = True, selectedPerson = ''Ram''\<rparr> \<and> (1::nat) < length [''Ram'', ''Shyam'', ''Ketan'']
   \<and> shown_options (Dropdown_render \<lparr>isOpen = True, selectedPerson = ''Ram''\<rparr>)
       = Some [''Ram'', ''Shyam'', ''Ketan'']
   \<and> Dropdown_dispatch \<lparr>isOpen = True, selectedPerson = ''Ram''\<rparr> (ClickOption 1) =
       (\<lparr>isOpen = False, selectedPerson = ''Shyam''\<rparr>, [''Shyam''])"
  using Dropdown_selector [of "\<lparr>isOpen = True, selectedPerson = ''Ram''\<rparr>" 1]
  by simp

lemma Dropdown_dispatch_eq:
  "part_000_Dropdown_dispatch st ev = Dropdown_dispatch st ev"
  by (cases ev)
    (simp_all add: part_000_Dropdown_dispatch_def Dropdown_dispatch_def
      part_000_Dropdown_button_onClick_def Dropdown_button_onClick_def
      part_000_Dropdown_option_onClick_def Dropdown_option_onClick_def
      part_000_Dropdown_render_def Dropdown_render_def
      part_000_Dropdown_people_def Dropdown_people_def
      part_000_Dropdown_option_def Dropdown_option_def less_Suc_eq numeral_3_eq_3)

lemma run_events_eq:
  "run_events part_000_Dropdown_dispatch st evs = run_events Dropdown_dispatch st evs"
  by (induction evs arbitrary: st) (simp_all add: Dropdown_dispatch_eq)

text \<open>
  Claim C10. The components of \<^verbatim>\<open>frontend/components/Dropdown.tsx\<close> and
  \<^verbatim>\<open>unnamed/part_000\<close> behave alike: the same initial state (closed, \<open>Ram\<close>), the same
  option list, and for every sequence of button and option clicks the same final state and
  the same \<open>onSelect\<close> calls in the same order. What they render in a state is the same
  once the class names and animation parameters are removed, and differs before.
\<close>

theorem Dropdown_variants_equivalent:
  "part_000_Dropdown_init = Dropdown_init
   \<and> Dropdown_init = \<lparr>isOpen = False, selectedPerson = ''Ram''\<rparr>
   \<and> part_000_Dropdown_people = Dropdown_people
   \<and> Dropdown_people = [''Ram'', ''Shyam'', ''Ketan'']
   \<and> run_events part_000_Dropdown_dispatch part_000_Dropdown_init evs
       = run_events Dropdown_dispatch Dropdown_init evs
   \<and> part_000_Dropdown_dispatch st ev = Dropdown_dispatch st ev
   \<and> erase_style (part_000_Dropdown_render st) = erase_style (Dropdown_render st)
   \<and> part_000_Dropdown_render st \<noteq> Dropdown_render st"
proof -
  have "erase_style (part_000_Dropdown_render st) = erase_style (Dropdown_render st)"
    by (simp add: erase_style_def erase_list_style_def erase_option_style_def
        part_000_Dropdown_render_def Dropdown_render_def
        part_000_Dropdown_people_def Dropdown_people_def
        part_000_Dropdown_option_def Dropdown_option_def)
  moreover have "part_000_Dropdown_render st \<noteq> Dropdown_render st"
  proof
    assume "part_000_Dropdown_render st = Dropdown_render st"
    then have "chevron_className (part_000_Dropdown_render st)
                 = chevron_className (Dropdown_render st)"
      by simp
    then show False
      by (simp add: part_000_Dropdown_render_def Dropdown_render_def)
  qed
  ultimately show ?thesis
    by (simp add: part_000_Dropdown_init_def Dropdown_init_def
        part_000_Dropdown_people_def Dropdown_people_def run_events_eq Dropdown_dispatch_eq)
qed

end
